theory Spec2Isabelle
  imports Main "HOL-Library.AList"
begin

section \<open>The browser test orchestrator (packages/browser/src/client/orchestrator.ts)\<close>

text \<open>
  The orchestrator is a single module with three pieces of module state: the registry
  \<open>iframes\<close> (a JavaScript \<open>Map\<close> from identifier to iframe element), the set
  \<open>runningFiles\<close>, and the promise \<open>promiseTesters\<close>. Its code is asynchronous:
  every \<open>await\<close> is a point where the function is suspended.

  The embedding keeps the module state in a record that is passed explicitly. Calls that
  leave the module (RPC to the host, messages posted on the channel, calls to the UI
  adapter, iframes appended to the document) are appended to a log of effects, in the order
  in which the code issues them. A promise that the code awaits may reject; the outcome of
  each awaited external call is a field of the environment record, so that every path on
  which an \<open>await\<close> throws is a branch of the model.
\<close>

subsection \<open>Data\<close>

text \<open>Width and height of a viewport: JavaScript numbers, only stored and passed on.\<close>

type_synonym num = int

text \<open>The error object handed to \<open>client.rpc.onUnhandledError\<close>: its name and its message.\<close>

datatype js_error = JsError string string

text \<open>
  \<open>IframeChannelEvent\<close>: the tagged union received on the channel. \<open>Viewport\<close> carries
  width, height and id; \<open>Done\<close> carries filenames and id; \<open>Error\<close> carries error,
  errorType, files and id. \<open>ViewportAck True\<close> is a message of type \<open>viewport:done\<close>,
  \<open>ViewportAck False\<close> one of type \<open>viewport:fail\<close>. \<open>Unknown t\<close> is a message whose
  type tag \<open>t\<close> is none of these (the \<open>default\<close> branch of the switch is written for it).
\<close>

datatype event =
    Viewport num num string
  | Done "string list" string
  | Error js_error string "string list" string
  | ViewportAck bool
  | Unknown string

fun event_type :: "event \<Rightarrow> string" where
  "event_type (Viewport w h i) = ''viewport''"
| "event_type (Done fs i) = ''done''"
| "event_type (Error e t fs i) = ''error''"
| "event_type (ViewportAck ok) = (if ok then ''viewport:done'' else ''viewport:fail'')"
| "event_type (Unknown t) = t"

text \<open>Messages the orchestrator posts on the channel.\<close>

datatype reply =
    ViewportFail string string
  | ViewportDone string

text \<open>Calls that leave the module, in the order the code makes them.\<close>

datatype effect =
    RpcDebug "string list"
  | RpcOnUnhandledError js_error string
  | RpcDone
  | RpcFinishBrowserTests
  | PostMessage reply
  | UiSetCurrentFileId string
  | UiSetIframeViewport num num
  | UiRunTestsFinish
  | AppendIframe string nat

text \<open>
  An iframe element: the attributes and the fixed style properties \<open>createIframe\<close> sets, in
  the order it sets them, and the width and height in pixels once \<open>setIframeViewport\<close>
  has written them.
\<close>

record iframe_el =
  attributes :: "(string \<times> string) list"
  style :: "(string \<times> string) list"
  style_width :: "num option"
  style_height :: "num option"

text \<open>
  The module state. \<open>iframes\<close> is the \<open>Map\<close>, kept as an association list in insertion
  order; a handle is the index of its element in \<open>elements\<close>, the list of all iframe
  elements created so far. \<open>children\<close> are the iframes attached to the container element,
  \<open>container_class\<close> is the container's \<open>className\<close>.
\<close>

record orch =
  iframes :: "(string \<times> nat) list"
  runningFiles :: "string set"
  elements :: "iframe_el list"
  children :: "nat list"
  container_class :: string
  effects :: "effect list"

text \<open>
  What the module reads from outside: the resolved configuration, the page URL, whether a
  UI adapter is installed (\<open>getUiAPI()\<close>), the library functions it calls, and the
  outcome of each promise it awaits (\<open>True\<close>: the promise resolves; \<open>False\<close>: it rejects).
\<close>

record env =
  debug_var :: "string option"
  browser_ui :: bool
  isolate_false :: bool
  viewport :: "num \<times> num"
  config_name :: "string option"
  config_root :: string
  has_ui :: bool
  url_pathname :: string
  encodeURIComponent :: "string \<Rightarrow> string"
  relative :: "string \<Rightarrow> string \<Rightarrow> string"
  generateHash :: "string \<Rightarrow> string"
  stringify :: "event \<Rightarrow> string"
  onUnhandledError_ok :: bool
  rpcDone_ok :: bool
  finishBrowserTests_ok :: bool
  ui_setIframeViewport_ok :: bool

datatype outcome = Resolved | Rejected

definition ID_ALL :: string where
  "ID_ALL = ''__vitest_all__''"

definition init_orch :: orch where
  "init_orch = \<lparr> iframes = [], runningFiles = {}, elements = [], children = [],
     container_class = [], effects = [] \<rparr>"

definition emit :: "effect \<Rightarrow> orch \<Rightarrow> orch" where
  "emit x s = s\<lparr> effects := effects s @ [x] \<rparr>"

subsection \<open>debug\<close>

text \<open>
  \<open>debug\<close> forwards its arguments to the host when \<open>VITEST_BROWSER_DEBUG\<close> is set, not
  empty and not the string \<open>false\<close>. The call is not awaited.
\<close>

definition debug_enabled :: "env \<Rightarrow> bool" where
  "debug_enabled env =
     (case debug_var env of None \<Rightarrow> False | Some d \<Rightarrow> d \<noteq> [] \<and> d \<noteq> ''false'')"

definition debug :: "env \<Rightarrow> string list \<Rightarrow> orch \<Rightarrow> orch" where
  "debug env args s = (if debug_enabled env then emit (RpcDebug args) s else s)"

subsection \<open>createIframe\<close>

definition new_iframe :: "env \<Rightarrow> string \<Rightarrow> iframe_el" where
  "new_iframe env file =
     \<lparr> attributes =
         [(''loading'', ''eager''),
          (''src'', url_pathname env @ ''__vitest_test__/__test__/'' @ encodeURIComponent env file),
          (''data-vitest'', ''true''),
          (''allowfullscreen'', ''true''),
          (''allow'', ''clipboard-write;'')],
       style =
         [(''display'', ''block''), (''border'', ''none''), (''zIndex'', ''1''),
          (''position'', ''relative'')],
       style_width = None,
       style_height = None \<rparr>"

text \<open>\<open>iframe.remove()\<close>: the element leaves its parent.\<close>

definition remove_el :: "nat \<Rightarrow> orch \<Rightarrow> orch" where
  "remove_el el s = s\<lparr> children := removeAll el (children s) \<rparr>"

definition createIframe :: "env \<Rightarrow> string \<Rightarrow> orch \<Rightarrow> nat \<times> orch" where
  "createIframe env file s =
     (let s1 = (case map_of (iframes s) file of
                  Some old \<Rightarrow> (remove_el old s)\<lparr> iframes := AList.delete file (iframes s) \<rparr>
                | None \<Rightarrow> s);
          el = length (elements s1);
          s2 = s1\<lparr> elements := elements s1 @ [new_iframe env file] \<rparr>;
          s3 = s2\<lparr> iframes := AList.update file el (iframes s2) \<rparr>;
          s4 = emit (AppendIframe file el) (s3\<lparr> children := children s3 @ [el] \<rparr>)
      in (el, s4))"

subsection \<open>done\<close>

text \<open>
  \<open>done(testFinished = true)\<close>: \<open>rpcDone()\<close> and then \<open>finishBrowserTests()\<close> inside
  \<open>try\<close>; the \<open>finally\<close> block calls \<open>runTestsFinish\<close> of the UI adapter, if
  \<open>testFinished\<close> holds and an adapter is installed. A rejection inside \<open>try\<close> skips the
  rest of the \<open>try\<close> block, runs \<open>finally\<close>, and is rethrown.
\<close>

definition done_finally :: "env \<Rightarrow> bool \<Rightarrow> orch \<Rightarrow> orch" where
  "done_finally env testFinished s =
     (if testFinished \<and> has_ui env then emit UiRunTestsFinish s else s)"

definition done_fn :: "env \<Rightarrow> bool \<Rightarrow> orch \<Rightarrow> outcome \<times> orch" where
  "done_fn env testFinished s =
     (let s1 = emit RpcDone s in
      if \<not> rpcDone_ok env then (Rejected, done_finally env testFinished s1)
      else
        let s2 = emit RpcFinishBrowserTests s1 in
        if \<not> finishBrowserTests_ok env then (Rejected, done_finally env testFinished s2)
        else (Resolved, done_finally env testFinished s2))"

subsection \<open>generateFileId and setIframeViewport\<close>

definition generateFileId :: "env \<Rightarrow> string \<Rightarrow> string" where
  "generateFileId env file =
     (let project = (case config_name env of None \<Rightarrow> [] | Some n \<Rightarrow> n);
          path = relative env (config_root env) file
      in generateHash env (path @ project))"

text \<open>
  With a UI adapter the resize is delegated and awaited; without one the element's own
  width and height are written. A handle that is not an element of the document changes
  nothing.
\<close>

definition set_size :: "nat \<Rightarrow> num \<Rightarrow> num \<Rightarrow> orch \<Rightarrow> orch" where
  "set_size el w h s =
     (if el < length (elements s)
      then s\<lparr> elements := (elements s)[el := (elements s ! el)\<lparr> style_width := Some w, style_height := Some h \<rparr>] \<rparr>
      else s)"

text \<open>
  \<open>setIframeViewport_call\<close> is the part of \<open>setIframeViewport\<close> that runs before its
  promise is awaited; \<open>viewport_outcome\<close> is how that promise settles, given the outcome
  of the adapter's promise (without an adapter nothing can reject).
\<close>

definition setIframeViewport_call :: "env \<Rightarrow> nat \<Rightarrow> num \<Rightarrow> num \<Rightarrow> orch \<Rightarrow> orch" where
  "setIframeViewport_call env el w h s =
     (if has_ui env then emit (UiSetIframeViewport w h) s else set_size el w h s)"

definition viewport_outcome :: "env \<Rightarrow> bool \<Rightarrow> outcome" where
  "viewport_outcome env ok = (if has_ui env \<and> \<not> ok then Rejected else Resolved)"

definition setIframeViewport :: "env \<Rightarrow> nat \<Rightarrow> num \<Rightarrow> num \<Rightarrow> orch \<Rightarrow> outcome \<times> orch" where
  "setIframeViewport env el w h s =
     (viewport_outcome env (ui_setIframeViewport_ok env), setIframeViewport_call env el w h s)"

subsection \<open>The channel listener\<close>

text \<open>
  One run of the listener registered in the \<open>open\<close> handler, on one message, from the
  first statement to the point where its promise settles, with nothing else running while
  it is suspended (the next subsection takes the run apart at its awaits).
\<close>

definition delete_all :: "string list \<Rightarrow> string set \<Rightarrow> string set" where
  "delete_all filenames running = fold (\<lambda>filename r. r - {filename}) filenames running"

definition drop_iframe :: "string \<Rightarrow> orch \<Rightarrow> orch" where
  "drop_iframe iframeId s =
     (let s1 = (case map_of (iframes s) iframeId of Some el \<Rightarrow> remove_el el s | None \<Rightarrow> s)
      in s1\<lparr> iframes := AList.delete iframeId (iframes s1) \<rparr>)"

definition on_viewport :: "env \<Rightarrow> num \<Rightarrow> num \<Rightarrow> string \<Rightarrow> orch \<Rightarrow> outcome \<times> orch" where
  "on_viewport env width height ident s =
     (case map_of (iframes s) ident of
        None \<Rightarrow>
          (let message = ''Cannot find iframe with id '' @ ident;
               s1 = emit (PostMessage (ViewportFail ident message)) s;
               s2 = emit (RpcOnUnhandledError (JsError ''Teardown Error'' message) ''Teardown Error'') s1
           in (if onUnhandledError_ok env then Resolved else Rejected, s2))
      | Some iframe \<Rightarrow>
          (case setIframeViewport env iframe width height s of
             (Rejected, s1) \<Rightarrow> (Rejected, s1)
           | (Resolved, s1) \<Rightarrow> (Resolved, emit (PostMessage (ViewportDone ident)) s1)))"

definition on_done :: "env \<Rightarrow> string list \<Rightarrow> string \<Rightarrow> orch \<Rightarrow> outcome \<times> orch" where
  "on_done env filenames ident s =
     (let s1 = s\<lparr> runningFiles := delete_all filenames (runningFiles s) \<rparr> in
      if runningFiles s1 = {}
      then
        (let s2 = (if has_ui env \<and> length filenames > 1
                   then emit (UiSetCurrentFileId (generateFileId env (last filenames))) s1
                   else s1)
         in done_fn env True s2)
      else (Resolved, drop_iframe ident s1))"

text \<open>
  The \<open>error\<close> branch is suspended at \<open>await client.rpc.onUnhandledError\<close>.
  \<open>on_error_begin\<close> is what it does before, \<open>on_error_resume\<close> what it does when the
  report has resolved.
\<close>

definition on_error_begin :: "js_error \<Rightarrow> string \<Rightarrow> string \<Rightarrow> orch \<Rightarrow> orch" where
  "on_error_begin err errorType iframeId s =
     emit (RpcOnUnhandledError err errorType) (s\<lparr> iframes := AList.delete iframeId (iframes s) \<rparr>)"

definition on_error_resume :: "env \<Rightarrow> string \<Rightarrow> orch \<Rightarrow> outcome \<times> orch" where
  "on_error_resume env iframeId s =
     (let s1 = (if iframeId = ID_ALL
                then s\<lparr> runningFiles := {} \<rparr>
                else s\<lparr> runningFiles := runningFiles s - {iframeId} \<rparr>)
      in if runningFiles s1 = {} then done_fn env True s1 else (Resolved, s1))"

definition on_error :: "env \<Rightarrow> js_error \<Rightarrow> string \<Rightarrow> string \<Rightarrow> orch \<Rightarrow> outcome \<times> orch" where
  "on_error env err errorType iframeId s =
     (let s1 = on_error_begin err errorType iframeId s
      in if \<not> onUnhandledError_ok env then (Rejected, s1)
         else on_error_resume env iframeId s1)"

definition on_default :: "env \<Rightarrow> string \<Rightarrow> orch \<Rightarrow> outcome \<times> orch" where
  "on_default env tag s =
     (let s1 = emit (RpcOnUnhandledError
                       (JsError ''Unexpected Event'' (''Unexpected event: '' @ tag))
                       ''Unexpected Event'') s
      in if \<not> onUnhandledError_ok env then (Rejected, s1) else done_fn env False s1)"

definition listener :: "env \<Rightarrow> event \<Rightarrow> orch \<Rightarrow> outcome \<times> orch" where
  "listener env e s =
     (let s0 = debug env [''channel event'', stringify env e] s in
      case e of
        Viewport width height ident \<Rightarrow> on_viewport env width height ident s0
      | Done filenames ident \<Rightarrow> on_done env filenames ident s0
      | Error err errorType files ident \<Rightarrow> on_error env err errorType ident s0
      | ViewportAck ok \<Rightarrow> on_default env (event_type e) s0
      | Unknown tag \<Rightarrow> on_default env (event_type e) s0)"

subsection \<open>The channel listener, from await to await\<close>

text \<open>
  The listener is an async function: at each \<open>await\<close> it is suspended, and it goes on,
  on the module state as it is then, when the awaited promise settles. \<open>cont\<close> names the
  points at which a run of the listener can be suspended:
  \<^item> \<open>ErrorReported iframeId\<close>: in the \<open>error\<close> branch, at \<open>await client.rpc.onUnhandledError\<close>;
  \<^item> \<open>UnexpectedReported\<close>: in the \<open>default\<close> branch, at \<open>await client.rpc.onUnhandledError\<close>;
  \<^item> \<open>TeardownReported\<close>: in the \<open>viewport\<close> branch, at \<open>await client.rpc.onUnhandledError\<close>;
  \<^item> \<open>Resizing id\<close>: in the \<open>viewport\<close> branch, at \<open>await setIframeViewport\<close>;
  \<^item> \<open>Flushing testFinished\<close>: inside \<open>done\<close>, at \<open>await rpcDone()\<close>;
  \<^item> \<open>Finishing testFinished\<close>: inside \<open>done\<close>, at \<open>await client.rpc.finishBrowserTests()\<close>.

  \<open>listener_begin\<close> is the run of the listener on a message up to its first \<open>await\<close> (or to
  its end, if it reaches none); \<open>listener_resume\<close> is the run of a suspended listener from
  the \<open>await\<close> it is suspended at, given whether the awaited promise resolved, up to the
  next \<open>await\<close> or to its end.
\<close>

datatype cont =
    ErrorReported string
  | UnexpectedReported
  | TeardownReported
  | Resizing string
  | Flushing bool
  | Finishing bool

datatype progress = Suspended cont | Finished outcome

definition done_begin :: "bool \<Rightarrow> orch \<Rightarrow> progress \<times> orch" where
  "done_begin testFinished s = (Suspended (Flushing testFinished), emit RpcDone s)"

definition default_begin :: "string \<Rightarrow> orch \<Rightarrow> progress \<times> orch" where
  "default_begin tag s =
     (Suspended UnexpectedReported,
      emit (RpcOnUnhandledError
              (JsError ''Unexpected Event'' (''Unexpected event: '' @ tag))
              ''Unexpected Event'') s)"

definition listener_begin :: "env \<Rightarrow> event \<Rightarrow> orch \<Rightarrow> progress \<times> orch" where
  "listener_begin env e s =
     (let s0 = debug env [''channel event'', stringify env e] s in
      case e of
        Viewport width height ident \<Rightarrow>
          (case map_of (iframes s0) ident of
             None \<Rightarrow>
               (let message = ''Cannot find iframe with id '' @ ident;
                    s1 = emit (PostMessage (ViewportFail ident message)) s0;
                    s2 = emit (RpcOnUnhandledError (JsError ''Teardown Error'' message)
                                 ''Teardown Error'') s1
                in (Suspended TeardownReported, s2))
           | Some iframe \<Rightarrow>
               (Suspended (Resizing ident), setIframeViewport_call env iframe width height s0))
      | Done filenames ident \<Rightarrow>
          (let s1 = s0\<lparr> runningFiles := delete_all filenames (runningFiles s0) \<rparr> in
           if runningFiles s1 = {}
           then
             (let s2 = (if has_ui env \<and> length filenames > 1
                        then emit (UiSetCurrentFileId (generateFileId env (last filenames))) s1
                        else s1)
              in done_begin True s2)
           else (Finished Resolved, drop_iframe ident s1))
      | Error err errorType files ident \<Rightarrow>
          (Suspended (ErrorReported ident), on_error_begin err errorType ident s0)
      | ViewportAck ok \<Rightarrow> default_begin (event_type e) s0
      | Unknown tag \<Rightarrow> default_begin (event_type e) s0)"

definition listener_resume :: "env \<Rightarrow> bool \<Rightarrow> cont \<Rightarrow> orch \<Rightarrow> progress \<times> orch" where
  "listener_resume env ok c s =
     (case c of
        ErrorReported iframeId \<Rightarrow>
          (if \<not> ok then (Finished Rejected, s)
           else
             (let s1 = (if iframeId = ID_ALL
                        then s\<lparr> runningFiles := {} \<rparr>
                        else s\<lparr> runningFiles := runningFiles s - {iframeId} \<rparr>)
              in if runningFiles s1 = {} then done_begin True s1 else (Finished Resolved, s1)))
      | UnexpectedReported \<Rightarrow>
          (if \<not> ok then (Finished Rejected, s) else done_begin False s)
      | TeardownReported \<Rightarrow> (Finished (if ok then Resolved else Rejected), s)
      | Resizing ident \<Rightarrow>
          (case viewport_outcome env ok of
             Rejected \<Rightarrow> (Finished Rejected, s)
           | Resolved \<Rightarrow> (Finished Resolved, emit (PostMessage (ViewportDone ident)) s))
      | Flushing testFinished \<Rightarrow>
          (if \<not> ok then (Finished Rejected, done_finally env testFinished s)
           else (Suspended (Finishing testFinished), emit RpcFinishBrowserTests s))
      | Finishing testFinished \<Rightarrow>
          (Finished (if ok then Resolved else Rejected), done_finally env testFinished s))"

text \<open>
  \<open>listener\<close> above is the same run with nothing in between: each suspended part resumed
  at once, with the outcome the environment record gives for the promise it awaits.
\<close>

fun outcome_for :: "env \<Rightarrow> cont \<Rightarrow> bool" where
  "outcome_for env (ErrorReported iframeId) = onUnhandledError_ok env"
| "outcome_for env UnexpectedReported = onUnhandledError_ok env"
| "outcome_for env TeardownReported = onUnhandledError_ok env"
| "outcome_for env (Resizing ident) = ui_setIframeViewport_ok env"
| "outcome_for env (Flushing testFinished) = rpcDone_ok env"
| "outcome_for env (Finishing testFinished) = finishBrowserTests_ok env"

fun advance :: "env \<Rightarrow> progress \<times> orch \<Rightarrow> progress \<times> orch" where
  "advance env (Suspended c, s) = listener_resume env (outcome_for env c) c s"
| "advance env (Finished out, s) = (Finished out, s)"

subsection \<open>createTesters\<close>

text \<open>
  \<open>createTesters\<close> is a coroutine: it runs until an \<open>await\<close>, is suspended there, and goes on
  when what it awaits settles. \<open>task\<close> names the points at which it can be suspended:
  \<^item> \<open>AwaitContainer testFiles\<close>: at \<open>await getContainer(config)\<close>;
  \<^item> \<open>AwaitViewportAll\<close>: at \<open>await setIframeViewport\<close> for the shared iframe;
  \<^item> \<open>AwaitViewport file rest\<close>: in the loop, at \<open>await setIframeViewport\<close> for the
    iframe of \<open>file\<close>, with \<open>rest\<close> the files the loop has not reached;
  \<^item> \<open>AwaitMessage file rest\<close>: in the loop, at \<open>await new Promise\<close>, with the handler
    registered on the channel;
  \<^item> \<open>Released file rest\<close>: at the same \<open>await\<close>, after the handler has removed itself
    and resolved the promise, before the loop goes on;
  \<^item> \<open>Settled\<close>: the promise of \<open>createTesters\<close> has settled.

  What moves the system is an \<open>input\<close>: a message on the channel; a look for the container
  element (\<open>getContainer\<close> looks once when called and then every 30 ms until the element is
  there; the flag says whether this look finds \<open>#tester-ui\<close>); the promise of
  \<open>setIframeViewport\<close> in \<open>createTesters\<close> settling; the loop going on after its promise
  was resolved; and the promise awaited by the \<open>k\<close>-th suspended run of the listener
  settling (the flag says whether it resolves).
\<close>

datatype task =
    AwaitContainer "string list"
  | AwaitViewportAll
  | AwaitViewport string "string list"
  | AwaitMessage string "string list"
  | Released string "string list"
  | Settled outcome

datatype input =
    Message event
  | ContainerPoll bool
  | ViewportSettled bool
  | Continue
  | Settles nat bool

definition createTesters_start :: "env \<Rightarrow> string list \<Rightarrow> orch \<Rightarrow> orch \<times> task" where
  "createTesters_start env testFiles s =
     (s\<lparr> runningFiles := fold (\<lambda>file r. insert file r) testFiles {} \<rparr>, AwaitContainer testFiles)"

text \<open>The loop of the isolated mode, from the head of an iteration to its first \<open>await\<close>.\<close>

fun loop :: "env \<Rightarrow> string list \<Rightarrow> orch \<Rightarrow> orch \<times> task" where
  "loop env [] s = (s, Settled Resolved)"
| "loop env (file # rest) s =
     (let (iframe, s1) = createIframe env file s;
          s2 = setIframeViewport_call env iframe (fst (viewport env)) (snd (viewport env)) s1
      in (s2, AwaitViewport file rest))"

text \<open>\<open>iframes.forEach(iframe => iframe.remove())\<close> and \<open>iframes.clear()\<close>.\<close>

definition remove_all_iframes :: "orch \<Rightarrow> orch" where
  "remove_all_iframes s =
     (fold (\<lambda>(ident, iframe) s'. remove_el iframe s') (iframes s) s)\<lparr> iframes := [] \<rparr>"

text \<open>
  From the point where the container is known to the next \<open>await\<close>. Setting
  \<open>textContent\<close> to the empty string removes every child of the container.
\<close>

definition after_container :: "env \<Rightarrow> string list \<Rightarrow> orch \<Rightarrow> orch \<times> task" where
  "after_container env testFiles s =
     (let s1 = (if browser_ui env then s\<lparr> container_class := ''scrolls'', children := [] \<rparr> else s);
          s2 = remove_all_iframes s1
      in if isolate_false env
         then
           (let (iframe, s3) = createIframe env ID_ALL s2;
                s4 = setIframeViewport_call env iframe (fst (viewport env)) (snd (viewport env)) s3
            in (s4, AwaitViewportAll))
         else loop env testFiles s2)"

fun done_or_error :: "event \<Rightarrow> bool" where
  "done_or_error (Done fs i) = True"
| "done_or_error (Error e t fs i) = True"
| "done_or_error _ = False"

text \<open>
  The loop's handler on a message: on \<open>done\<close> or \<open>error\<close> it removes itself and resolves
  the promise the loop awaits. It is registered only while the loop is at that \<open>await\<close>.
\<close>

fun handler :: "event \<Rightarrow> task \<Rightarrow> task" where
  "handler e (AwaitMessage file rest) =
     (if done_or_error e then Released file rest else AwaitMessage file rest)"
| "handler e t = t"

text \<open>
  One input to the suspended coroutine. An input it is not waiting for leaves it as it is.
\<close>

fun step :: "env \<Rightarrow> input \<Rightarrow> orch \<times> task \<Rightarrow> orch \<times> task" where
  "step env (ContainerPoll found) (s, AwaitContainer testFiles) =
     (if browser_ui env \<and> \<not> found then (s, AwaitContainer testFiles)
      else after_container env testFiles s)"
| "step env (ViewportSettled ok) (s, AwaitViewportAll) = (s, Settled (viewport_outcome env ok))"
| "step env (ViewportSettled ok) (s, AwaitViewport file rest) =
     (case viewport_outcome env ok of
        Rejected \<Rightarrow> (s, Settled Rejected)
      | Resolved \<Rightarrow> (s, AwaitMessage file rest))"
| "step env (Message e) (s, t) = (s, handler e t)"
| "step env Continue (s, Released file rest) = loop env rest s"
| "step env i (s, t) = (s, t)"

text \<open>
  The system: the module state, the coroutine of \<open>createTesters\<close>, and the runs of the
  listener that are suspended at an \<open>await\<close>, oldest first. The channel has two listeners
  while \<open>createTesters\<close> waits in its loop: the listener of the \<open>open\<close> handler, registered
  first, and the loop's handler. A message starts a run of the first, which goes to its
  first \<open>await\<close>, and is then given to the handler. A suspended run of the listener goes on
  when the input says that its promise settles, on the state the module has then.
\<close>

type_synonym system = "orch \<times> task \<times> cont list"

fun suspended :: "progress \<Rightarrow> cont list" where
  "suspended (Suspended c) = [c]"
| "suspended (Finished out) = []"

fun replace_cont :: "nat \<Rightarrow> progress \<Rightarrow> cont list \<Rightarrow> cont list" where
  "replace_cont k (Suspended c) cs = cs[k := c]"
| "replace_cont k (Finished out) cs = take k cs @ drop (Suc k) cs"

fun system_step :: "env \<Rightarrow> input \<Rightarrow> system \<Rightarrow> system" where
  "system_step env (Message e) (s, t, cs) =
     (let (p, s1) = listener_begin env e s;
          (s2, t2) = step env (Message e) (s1, t)
      in (s2, t2, cs @ suspended p))"
| "system_step env (Settles k ok) (s, t, cs) =
     (if k < length cs
      then (let (p, s1) = listener_resume env ok (cs ! k) s in (s1, t, replace_cont k p cs))
      else (s, t, cs))"
| "system_step env i (s, t, cs) = (let (s1, t1) = step env i (s, t) in (s1, t1, cs))"

fun run :: "env \<Rightarrow> input list \<Rightarrow> system \<Rightarrow> system" where
  "run env [] st = st"
| "run env (i # ins) st = run env ins (system_step env i st)"

text \<open>
  \<open>begin_run\<close> is the system when \<open>createTesters\<close> has been called, with the runs of the
  listener that are suspended at that moment.
\<close>

definition begin_run :: "env \<Rightarrow> string list \<Rightarrow> cont list \<Rightarrow> orch \<Rightarrow> system" where
  "begin_run env testFiles cs s =
     (fst (createTesters_start env testFiles s), snd (createTesters_start env testFiles s), cs)"

text \<open>
  The history of a run: every input, followed by the effects the system issued on it.
\<close>

datatype obs = In input | Out effect

definition new_effects :: "orch \<Rightarrow> orch \<Rightarrow> effect list" where
  "new_effects s s' = drop (length (effects s)) (effects s')"

fun trace :: "env \<Rightarrow> input list \<Rightarrow> system \<Rightarrow> obs list" where
  "trace env [] st = []"
| "trace env (i # ins) st =
     In i # map Out (new_effects (fst st) (fst (system_step env i st)))
       @ trace env ins (system_step env i st)"

fun sandbox_of :: "obs \<Rightarrow> string option" where
  "sandbox_of (Out (AppendIframe file el)) = Some file"
| "sandbox_of _ = None"

definition created :: "obs list \<Rightarrow> string list" where
  "created tr = List.map_filter sandbox_of tr"

fun releases :: "obs \<Rightarrow> bool" where
  "releases (In (Message e)) = done_or_error e"
| "releases _ = False"

text \<open>
  A message is tied to the sandbox the loop is at when it is a \<open>done\<close> or \<open>error\<close> carrying
  that sandbox's id, a \<open>done\<close> naming none of the files still to come; before the first
  sandbox exists, when it names no file of the run. Messages of other types are always
  tied. A suspended run of the listener is harmless for a list of files when, going on, it
  takes none of them out of the running set: it is not suspended in the \<open>error\<close> branch
  with the id \<open>ID_ALL\<close> or with one of these files.
\<close>

fun tied :: "string \<Rightarrow> string list \<Rightarrow> event \<Rightarrow> bool" where
  "tied file rest (Done filenames ident) = (ident = file \<and> set filenames \<inter> set rest = {})"
| "tied file rest (Error err errorType files ident) = (ident = file)"
| "tied file rest e = True"

fun foreign :: "string list \<Rightarrow> event \<Rightarrow> bool" where
  "foreign testFiles (Done filenames ident) = (set filenames \<inter> set testFiles = {})"
| "foreign testFiles (Error err errorType files ident) = (ident \<noteq> ID_ALL \<and> ident \<notin> set testFiles)"
| "foreign testFiles e = True"

fun tied_input :: "task \<Rightarrow> input \<Rightarrow> bool" where
  "tied_input (AwaitContainer testFiles) (Message e) = foreign testFiles e"
| "tied_input (AwaitViewport file rest) (Message e) = tied file rest e"
| "tied_input (AwaitMessage file rest) (Message e) = tied file rest e"
| "tied_input (Released file rest) (Message e) = tied file rest e"
| "tied_input t i = True"

fun conforming :: "env \<Rightarrow> input list \<Rightarrow> system \<Rightarrow> bool" where
  "conforming env [] st = True"
| "conforming env (i # ins) st =
     (tied_input (fst (snd st)) i \<and> conforming env ins (system_step env i st))"

fun harmless :: "string list \<Rightarrow> cont \<Rightarrow> bool" where
  "harmless testFiles (ErrorReported iframeId) = (iframeId \<noteq> ID_ALL \<and> iframeId \<notin> set testFiles)"
| "harmless testFiles c = True"

fun error_message :: "input \<Rightarrow> bool" where
  "error_message (Message (Error err errorType files ident)) = True"
| "error_message i = False"

subsection \<open>The handler of the open event\<close>

fun join :: "string list \<Rightarrow> string" where
  "join [] = []"
| "join [x] = x"
| "join (x # y # ys) = x @ '', '' @ join (y # ys)"

definition on_open :: "env \<Rightarrow> string list \<Rightarrow> orch \<Rightarrow> orch \<times> task" where
  "on_open env testFiles s =
     (let s1 = debug env [''test files'', join testFiles] s;
          s2 = s1\<lparr> runningFiles := fold (\<lambda>file r. insert file r) testFiles {} \<rparr>
      in if testFiles \<noteq> [] then createTesters_start env testFiles s2
         else (s2, Settled Resolved))"

text \<open>
  The system after the \<open>open\<close> handler has run to its \<open>await\<close>: the listener has just been
  registered, so no run of it is suspended.
\<close>

definition open_system :: "env \<Rightarrow> string list \<Rightarrow> orch \<Rightarrow> system" where
  "open_system env testFiles s =
     (fst (on_open env testFiles s), snd (on_open env testFiles s), [])"

subsection \<open>The wrapper stored in the browser state\<close>

text \<open>
  \<open>getBrowserState().createTesters\<close> is an async function of three statements around the
  module variable \<open>promiseTesters\<close>. A call of it is suspended twice: at
  \<open>await promiseTesters\<close>, on the value the variable has when the call is made, and at the
  second \<open>await promiseTesters\<close>, on the promise of the pass it has started. Passes of
  \<open>createTesters\<close> are numbered in the order they start; the promise built from pass \<open>k\<close>
  with \<open>finally\<close> is promise \<open>k\<close>. What a pass does is left out here: it starts, and at
  some later point it settles.
\<close>

datatype phase =
    AwaitPrevious "nat option"
  | AwaitOwn nat
  | Returned outcome

record lifecycle =
  promiseTesters :: "nat option"
  settled :: "(nat \<times> outcome) list"
  active :: "nat list"
  started :: nat
  requests :: "phase list"

datatype sched =
    Call
  | Resume nat
  | PassSettles nat outcome

definition init_lifecycle :: lifecycle where
  "init_lifecycle = \<lparr> promiseTesters = None, settled = [], active = [], started = 0,
     requests = [] \<rparr>"

text \<open>
  The second statement: \<open>createTesters(files)\<close> starts a pass, and the promise made from it
  is stored in \<open>promiseTesters\<close>; the request then awaits that promise.
\<close>

definition start_pass :: "nat \<Rightarrow> lifecycle \<Rightarrow> lifecycle" where
  "start_pass r l =
     l\<lparr> active := active l @ [started l],
        promiseTesters := Some (started l),
        requests := (requests l)[r := AwaitOwn (started l)],
        started := Suc (started l) \<rparr>"

definition resume :: "nat \<Rightarrow> lifecycle \<Rightarrow> lifecycle" where
  "resume r l =
     (if r < length (requests l) then
        (case requests l ! r of
           AwaitPrevious None \<Rightarrow> start_pass r l
         | AwaitPrevious (Some p) \<Rightarrow>
             (case map_of (settled l) p of
                None \<Rightarrow> l
              | Some Resolved \<Rightarrow> start_pass r l
              | Some Rejected \<Rightarrow> l\<lparr> requests := (requests l)[r := Returned Rejected] \<rparr>)
         | AwaitOwn p \<Rightarrow>
             (case map_of (settled l) p of
                None \<Rightarrow> l
              | Some out \<Rightarrow> l\<lparr> requests := (requests l)[r := Returned out] \<rparr>)
         | Returned out \<Rightarrow> l)
      else l)"

text \<open>
  A pass settles: the callback given to \<open>finally\<close> sets \<open>promiseTesters\<close> to
  \<open>undefined\<close>, and the promise made with \<open>finally\<close> settles the same way as the pass.
\<close>

definition pass_settles :: "nat \<Rightarrow> outcome \<Rightarrow> lifecycle \<Rightarrow> lifecycle" where
  "pass_settles k out l =
     (if k \<in> set (active l)
      then l\<lparr> active := removeAll k (active l),
             promiseTesters := None,
             settled := settled l @ [(k, out)] \<rparr>
      else l)"

fun sched_step :: "sched \<Rightarrow> lifecycle \<Rightarrow> lifecycle" where
  "sched_step Call l = l\<lparr> requests := requests l @ [AwaitPrevious (promiseTesters l)] \<rparr>"
| "sched_step (Resume r) l = resume r l"
| "sched_step (PassSettles k out) l = pass_settles k out l"

definition schedule :: "sched list \<Rightarrow> lifecycle \<Rightarrow> lifecycle" where
  "schedule evs l = fold sched_step evs l"

section \<open>Vocabulary of the statements\<close>

subsection \<open>What one run of the listener does\<close>

text \<open>
  \<open>state_after\<close> is the module state when the listener's promise for a message has
  settled; \<open>issued\<close> are the calls it made on the way, in order.
\<close>

definition state_after :: "env \<Rightarrow> event \<Rightarrow> orch \<Rightarrow> orch" where
  "state_after env e s = snd (listener env e s)"

definition issued :: "env \<Rightarrow> event \<Rightarrow> orch \<Rightarrow> effect list" where
  "issued env e s = new_effects s (snd (listener env e s))"

text \<open>
  Names for pieces of the log. \<open>debug_effects\<close> is what a call of \<open>debug\<close> adds;
  \<open>flush_effects\<close> is what the \<open>try\<close> block of \<open>done\<close> adds: \<open>finishBrowserTests\<close> is
  reached only if \<open>rpcDone\<close> resolved; \<open>finally_effects\<close> is what its \<open>finally\<close> block
  adds. Every call of \<open>done\<close> starts with \<open>rpcDone()\<close>, so the number of \<open>RpcDone\<close>
  entries in a log is the number of calls of \<open>done\<close>.
\<close>

definition debug_effects :: "env \<Rightarrow> string list \<Rightarrow> effect list" where
  "debug_effects env args = (if debug_enabled env then [RpcDebug args] else [])"

definition flush_effects :: "env \<Rightarrow> effect list" where
  "flush_effects env = (if rpcDone_ok env then [RpcDone, RpcFinishBrowserTests] else [RpcDone])"

definition finally_effects :: "env \<Rightarrow> bool \<Rightarrow> effect list" where
  "finally_effects env testFinished = (if testFinished \<and> has_ui env then [UiRunTestsFinish] else [])"

definition viewport_effects :: "env \<Rightarrow> effect list" where
  "viewport_effects env =
     (if has_ui env then [UiSetIframeViewport (fst (viewport env)) (snd (viewport env))] else [])"

text \<open>Reports to the host's \<open>onUnhandledError\<close>, whatever their arguments.\<close>

fun is_report :: "effect \<Rightarrow> bool" where
  "is_report (RpcOnUnhandledError err errorType) = True"
| "is_report x = False"

text \<open>The messages the \<open>default\<close> branch of the switch receives, and the report it sends.\<close>

fun unexpected :: "event \<Rightarrow> bool" where
  "unexpected (ViewportAck ok) = True"
| "unexpected (Unknown tag) = True"
| "unexpected e = False"

definition unexpected_report :: "event \<Rightarrow> effect" where
  "unexpected_report e =
     RpcOnUnhandledError (JsError ''Unexpected Event'' (''Unexpected event: '' @ event_type e))
       ''Unexpected Event''"

text \<open>What the \<open>viewport\<close> branch sends when the id names no registered iframe.\<close>

definition viewport_fail_effects :: "string \<Rightarrow> effect list" where
  "viewport_fail_effects ident =
     [PostMessage (ViewportFail ident (''Cannot find iframe with id '' @ ident)),
      RpcOnUnhandledError (JsError ''Teardown Error'' (''Cannot find iframe with id '' @ ident))
        ''Teardown Error'']"

subsection \<open>The registry\<close>

text \<open>
  \<open>handles_for ident s\<close> are the handles registered under \<open>ident\<close>. The registry is in
  order when no identifier and no handle occurs twice in it and every handle is an element
  that \<open>createIframe\<close> has made.
\<close>

definition handles_for :: "string \<Rightarrow> orch \<Rightarrow> nat list" where
  "handles_for ident s = map snd (filter (\<lambda>entry. fst entry = ident) (iframes s))"

definition registry_ok :: "orch \<Rightarrow> bool" where
  "registry_ok s =
     (distinct (map fst (iframes s)) \<and> distinct (map snd (iframes s))
      \<and> list_all (\<lambda>el. el < length (elements s)) (map snd (iframes s)))"

subsection \<open>Histories of createTesters\<close>

text \<open>
  \<open>pending t\<close> are the files for which the suspended coroutine has still to create a
  sandbox. \<open>gated ok tr\<close> reads a history from the left and checks that every creation of
  an iframe but a first one permitted by \<open>ok\<close> comes after a \<open>done\<close> or \<open>error\<close> message
  that itself comes after the creation before it.
\<close>

fun is_append :: "effect \<Rightarrow> bool" where
  "is_append (AppendIframe file el) = True"
| "is_append x = False"

fun pending :: "task \<Rightarrow> string list" where
  "pending (AwaitContainer testFiles) = testFiles"
| "pending (AwaitViewport file rest) = rest"
| "pending (AwaitMessage file rest) = rest"
| "pending (Released file rest) = rest"
| "pending t = []"

fun gated :: "bool \<Rightarrow> obs list \<Rightarrow> bool" where
  "gated ok [] = True"
| "gated ok (In i # tr) = gated (ok \<or> releases (In i)) tr"
| "gated ok (Out x # tr) = (if is_append x then ok \<and> gated False tr else gated ok tr)"

text \<open>
  \<open>may_create t\<close>: the coroutine is at a point from which its next move can create an
  iframe without a further message: before the first sandbox, or released by its handler.
\<close>

fun may_create :: "task \<Rightarrow> bool" where
  "may_create (AwaitContainer testFiles) = True"
| "may_create (Released file rest) = True"
| "may_create t = False"

text \<open>
  The two forms one step of the system can take in the isolated mode: it makes no iframe,
  or it makes exactly one, for the first pending file, and then only from a point where
  \<open>may_create\<close> holds. A step that brings the coroutine to such a point is the arrival of
  a \<open>done\<close> or \<open>error\<close> message.
\<close>

definition step_shape :: "env \<Rightarrow> input \<Rightarrow> system \<Rightarrow> bool" where
  "step_shape env i st =
     ((\<exists>xs. effects (fst (system_step env i st)) = effects (fst st) @ xs
          \<and> filter is_append xs = []
          \<and> (pending (fst (snd (system_step env i st))) = pending (fst (snd st))
              \<or> pending (fst (snd (system_step env i st))) = [])
          \<and> (may_create (fst (snd (system_step env i st)))
                \<longrightarrow> may_create (fst (snd st)) \<or> releases (In i)))
      \<or> (\<exists>xs f n ys. effects (fst (system_step env i st))
                         = effects (fst st) @ xs @ AppendIframe f n # ys
          \<and> filter is_append xs = [] \<and> filter is_append ys = []
          \<and> pending (fst (snd st)) = f # pending (fst (snd (system_step env i st)))
          \<and> \<not> may_create (fst (snd (system_step env i st)))
          \<and> may_create (fst (snd st))))"

text \<open>
  The invariant of a run whose messages are all tied: the registry holds at most the
  sandbox of the file the loop is at, every file still to come is in the running set, and
  every suspended run of the listener is harmless for the files still to come.
\<close>

fun sequential :: "system \<Rightarrow> bool" where
  "sequential (s, AwaitContainer testFiles, cs) =
     (set testFiles \<subseteq> runningFiles s \<and> distinct testFiles \<and> ID_ALL \<notin> set testFiles
      \<and> list_all (harmless testFiles) cs)"
| "sequential (s, AwaitViewport file rest, cs) =
     (length (iframes s) \<le> 1 \<and> fst ` set (iframes s) \<subseteq> {file} \<and> set rest \<subseteq> runningFiles s
      \<and> distinct (file # rest) \<and> ID_ALL \<notin> set (file # rest) \<and> list_all (harmless rest) cs)"
| "sequential (s, AwaitMessage file rest, cs) =
     (length (iframes s) \<le> 1 \<and> fst ` set (iframes s) \<subseteq> {file} \<and> set rest \<subseteq> runningFiles s
      \<and> distinct (file # rest) \<and> ID_ALL \<notin> set (file # rest) \<and> list_all (harmless rest) cs)"
| "sequential (s, Released file rest, cs) =
     (length (iframes s) \<le> 1 \<and> fst ` set (iframes s) \<subseteq> {file} \<and> set rest \<subseteq> runningFiles s
      \<and> distinct (file # rest) \<and> ID_ALL \<notin> set (file # rest) \<and> list_all (harmless rest) cs
      \<and> (rest \<noteq> [] \<longrightarrow> iframes s = []))"
| "sequential (s, t, cs) = (length (iframes s) \<le> 1)"

text \<open>
  The iframes a run has made are the elements from index \<open>n\<close> on, \<open>n\<close> being the number
  of elements when the run began; \<open>attached n s\<close> are those of them that are children of
  the container. The document is in order when every child of the container is an element
  that \<open>createIframe\<close> has made. \<open>in_step n\<close> is the invariant of a run without \<open>error\<close>
  messages: the iframes of the run that are attached are the registered ones.
\<close>

definition attached :: "nat \<Rightarrow> orch \<Rightarrow> nat list" where
  "attached n s = filter (\<lambda>el. n \<le> el) (children s)"

definition document_ok :: "orch \<Rightarrow> bool" where
  "document_ok s = list_all (\<lambda>el. el < length (elements s)) (children s)"

fun in_step :: "nat \<Rightarrow> system \<Rightarrow> bool" where
  "in_step n (s, AwaitContainer testFiles, cs) =
     (document_ok s \<and> length (elements s) = n)"
| "in_step n (s, t, cs) =
     (document_ok s \<and> n \<le> length (elements s) \<and> attached n s = map snd (iframes s))"

text \<open>
  \<open>container_found t\<close>: the coroutine is past the poll for the container, so the run has
  set up the running set and made its first sandbox (or has found nothing to run).
\<close>

fun container_found :: "task \<Rightarrow> bool" where
  "container_found (AwaitContainer testFiles) = False"
| "container_found t = True"

subsection \<open>Concrete configurations, states and runs\<close>

text \<open>
  A headless configuration in the isolated mode in which every awaited promise resolves;
  module states with two and three running files; the state after \<open>createIframe\<close> for file
  \<open>a\<close>, and after \<open>createIframe\<close> for the shared sandbox; a run of the isolated mode over
  the files \<open>a\<close> and \<open>b\<close> in which each sandbox reports \<open>done\<close> for its file and the
  suspended runs of the listener are resumed at the end; the beginning of such a run in
  which a \<open>done\<close> message of an iframe of an earlier run arrives while the sandbox of \<open>a\<close>
  runs, and one in which the sandbox of \<open>a\<close> reports an error; a schedule of three calls of
  the wrapper, the second and third made while the pass of the first is in flight; and a
  schedule of two calls made one after the other before either is resumed.
\<close>

definition example_env :: env where
  "example_env =
     \<lparr> debug_var = None, browser_ui = False, isolate_false = False, viewport = (414, 896),
       config_name = None, config_root = ''/'', has_ui = False, url_pathname = ''/'',
       encodeURIComponent = (\<lambda>file. file), relative = (\<lambda>root file. file),
       generateHash = (\<lambda>text. text), stringify = event_type,
       onUnhandledError_ok = True, rpcDone_ok = True, finishBrowserTests_ok = True,
       ui_setIframeViewport_ok = True \<rparr>"

definition running_ab :: orch where
  "running_ab = init_orch\<lparr> runningFiles := {''a'', ''b''} \<rparr>"

definition running_xyz :: orch where
  "running_xyz = init_orch\<lparr> runningFiles := {''x'', ''y'', ''z''} \<rparr>"

definition registered_a :: orch where
  "registered_a = snd (createIframe example_env ''a'' running_ab)"

definition shared_ab :: orch where
  "shared_ab = snd (createIframe example_env ID_ALL running_ab)"

definition run_ab :: "input list" where
  "run_ab = [ContainerPoll True, ViewportSettled True, Message (Done [''a''] ''a''), Continue,
             ViewportSettled True, Message (Done [''b''] ''b''), Continue, Settles 0 True,
             Settles 0 True]"

definition three_requests :: "sched list" where
  "three_requests =
     [Call, Resume 0, Call, Call, PassSettles 0 Resolved, Resume 0, Resume 1, Resume 2]"

definition stale_done :: "input list" where
  "stale_done = [ContainerPoll True, ViewportSettled True, Message (Done [''old''] ''old''),
                 Continue]"

definition error_in_a :: "input list" where
  "error_in_a = [ContainerPoll True, ViewportSettled True,
                 Message (Error (JsError ''Error'' ''failed'') ''Error'' [''a''] ''a''), Continue]"

definition two_requests :: "sched list" where
  "two_requests = [Call, Call, Resume 0, Resume 1]"

section \<open>Properties\<close>

subsection \<open>The log and the frame of the basic operations\<close>

lemma delete_all_eq: "delete_all filenames running = running - set filenames"
  unfolding delete_all_def by (induction filenames arbitrary: running) auto

lemma emit_simps:
  "effects (emit x s) = effects s @ [x]"
  "iframes (emit x s) = iframes s"
  "runningFiles (emit x s) = runningFiles s"
  "elements (emit x s) = elements s"
  "children (emit x s) = children s"
  "container_class (emit x s) = container_class s"
  by (simp_all add: emit_def)

lemma new_effects_append: "effects s' = effects s @ xs \<Longrightarrow> new_effects s s' = xs"
  by (simp add: new_effects_def)

lemma debug_simps:
  "effects (debug env args s) = effects s @ debug_effects env args"
  "iframes (debug env args s) = iframes s"
  "runningFiles (debug env args s) = runningFiles s"
  "elements (debug env args s) = elements s"
  "children (debug env args s) = children s"
  "container_class (debug env args s) = container_class s"
  by (simp_all add: debug_def debug_effects_def emit_simps)

lemma done_fn_effects:
  "effects (snd (done_fn env tf s)) = effects s @ flush_effects env @ finally_effects env tf"
  by (simp add: done_fn_def done_finally_def flush_effects_def finally_effects_def emit_simps Let_def)

lemma done_fn_frame:
  "iframes (snd (done_fn env tf s)) = iframes s"
  "runningFiles (snd (done_fn env tf s)) = runningFiles s"
  "elements (snd (done_fn env tf s)) = elements s"
  "children (snd (done_fn env tf s)) = children s"
  "container_class (snd (done_fn env tf s)) = container_class s"
  by (simp_all add: done_fn_def done_finally_def emit_simps Let_def)

lemma done_fn_outcome:
  "fst (done_fn env tf s) = (if rpcDone_ok env \<and> finishBrowserTests_ok env then Resolved else Rejected)"
  by (simp add: done_fn_def Let_def)

lemma drop_iframe_simps:
  "iframes (drop_iframe i s) = AList.delete i (iframes s)"
  "runningFiles (drop_iframe i s) = runningFiles s"
  "effects (drop_iframe i s) = effects s"
  "elements (drop_iframe i s) = elements s"
  by (simp_all add: drop_iframe_def remove_el_def Let_def split: option.splits)

lemma set_size_simps:
  "iframes (set_size el w h s) = iframes s"
  "runningFiles (set_size el w h s) = runningFiles s"
  "effects (set_size el w h s) = effects s"
  "children (set_size el w h s) = children s"
  "length (elements (set_size el w h s)) = length (elements s)"
  by (simp_all add: set_size_def)

lemma viewport_call_simps:
  "iframes (setIframeViewport_call env el w h s) = iframes s"
  "runningFiles (setIframeViewport_call env el w h s) = runningFiles s"
  "children (setIframeViewport_call env el w h s) = children s"
  "length (elements (setIframeViewport_call env el w h s)) = length (elements s)"
  "effects (setIframeViewport_call env el w h s) =
     effects s @ (if has_ui env then [UiSetIframeViewport w h] else [])"
  by (simp_all add: setIframeViewport_call_def set_size_simps emit_simps)

lemma set_size_elements:
  "el < length (elements s) \<Longrightarrow>
     style_width (elements (set_size el w h s) ! el) = Some w
   \<and> style_height (elements (set_size el w h s) ! el) = Some h"
  by (simp add: set_size_def)

lemma update_fresh: "k \<notin> fst ` set al \<Longrightarrow> AList.update k v al = al @ [(k, v)]"
  by (induction al) auto

lemma delete_filter: "AList.delete k al = filter (\<lambda>p. fst p \<noteq> k) al"
  by (induction al) auto

lemma delete_only: "fst ` set al \<subseteq> {k} \<Longrightarrow> AList.delete k al = []"
  by (induction al) auto

lemma createIframe_iframes:
  "iframes (snd (createIframe env file s)) = AList.delete file (iframes s) @ [(file, length (elements s))]"
proof (cases "map_of (iframes s) file")
  case None
  then have "file \<notin> fst ` set (iframes s)" by (simp add: map_of_eq_None_iff)
  then show ?thesis using None
    by (simp add: createIframe_def Let_def emit_simps update_fresh)
next
  case (Some old)
  have "file \<notin> fst ` set (AList.delete file (iframes s))" by (rule delete_notin_dom)
  then show ?thesis using Some
    by (simp add: createIframe_def Let_def emit_simps update_fresh remove_el_def)
qed

lemma createIframe_simps:
  "fst (createIframe env file s) = length (elements s)"
  "elements (snd (createIframe env file s)) = elements s @ [new_iframe env file]"
  "runningFiles (snd (createIframe env file s)) = runningFiles s"
  "effects (snd (createIframe env file s)) = effects s @ [AppendIframe file (length (elements s))]"
  "children (snd (createIframe env file s)) =
     (case map_of (iframes s) file of None \<Rightarrow> children s | Some old \<Rightarrow> removeAll old (children s))
       @ [length (elements s)]"
  by (simp_all add: createIframe_def Let_def emit_simps remove_el_def split: option.splits)

lemma createIframe_lookup:
  "map_of (iframes (snd (createIframe env file s))) k =
     (if k = file then Some (length (elements s)) else map_of (iframes s) k)"
  by (simp add: createIframe_iframes map_add_def delete_conv' split: option.splits)

lemma createIframe_handles_for:
  "handles_for file (snd (createIframe env file s)) = [length (elements s)]"
  by (simp add: handles_for_def createIframe_iframes delete_filter filter_empty_conv)

lemma running_ab_simps:
  "iframes running_ab = []" "runningFiles running_ab = {''a'', ''b''}" "elements running_ab = []"
  "children running_ab = []" "effects running_ab = []"
  by (simp_all add: running_ab_def init_orch_def)

lemma registered_a_simps:
  "iframes registered_a = [(''a'', 0)]" "runningFiles registered_a = {''a'', ''b''}"
  "length (elements registered_a) = 1" "children registered_a = [0]"
  by (simp_all add: registered_a_def createIframe_def Let_def emit_simps running_ab_simps)

lemma shared_ab_simps:
  "iframes shared_ab = [(ID_ALL, 0)]" "runningFiles shared_ab = {''a'', ''b''}"
  by (simp_all add: shared_ab_def createIframe_def Let_def emit_simps running_ab_simps)

subsection \<open>done: the UI is released although the flush fails\<close>

text \<open>
  Claim C6. For every call of \<open>done\<close> with the UI notification enabled (\<open>testFinished\<close>
  is true and a UI adapter is installed), \<open>runTestsFinish\<close> is called exactly once, as the
  last call, whether \<open>rpcDone\<close> rejects, \<open>finishBrowserTests\<close> rejects or both resolve; a
  rejection of the flush still makes the promise of \<open>done\<close> reject.
\<close>

theorem done_releases_ui:
  "has_ui env \<Longrightarrow>
     new_effects s (snd (done_fn env True s))
       = (if rpcDone_ok env then [RpcDone, RpcFinishBrowserTests] else [RpcDone]) @ [UiRunTestsFinish]
   \<and> count_list (new_effects s (snd (done_fn env True s))) UiRunTestsFinish = 1
   \<and> (\<not> (rpcDone_ok env \<and> finishBrowserTests_ok env) \<longrightarrow> fst (done_fn env True s) = Rejected)"
  by (simp add: new_effects_append[OF done_fn_effects] finally_effects_def flush_effects_def done_fn_outcome)

theorem done_releases_ui_witness:
  "has_ui (example_env\<lparr> has_ui := True, rpcDone_ok := False \<rparr>)
   \<and> \<not> rpcDone_ok (example_env\<lparr> has_ui := True, rpcDone_ok := False \<rparr>)
   \<and> new_effects init_orch
        (snd (done_fn (example_env\<lparr> has_ui := True, rpcDone_ok := False \<rparr>) True init_orch))
      = [RpcDone, UiRunTestsFinish]
   \<and> fst (done_fn (example_env\<lparr> has_ui := True, rpcDone_ok := False \<rparr>) True init_orch) = Rejected"
  using done_releases_ui [of "example_env\<lparr> has_ui := True, rpcDone_ok := False \<rparr>" init_orch]
  by (simp add: example_env_def flush_effects_def)

subsection \<open>The listener on a done message\<close>

lemma listener_Done:
  "listener env (Done filenames ident) s =
     on_done env filenames ident (debug env [''channel event'', stringify env (Done filenames ident)] s)"
  by (simp add: listener_def Let_def)

lemma on_done_running:
  "runningFiles (snd (on_done env filenames ident s)) = runningFiles s - set filenames"
  by (simp add: on_done_def Let_def delete_all_eq done_fn_frame emit_simps drop_iframe_simps)

lemma on_done_effects:
  "effects (snd (on_done env filenames ident s)) = effects s @
     (if runningFiles s - set filenames = {}
      then (if has_ui env \<and> length filenames > 1
            then [UiSetCurrentFileId (generateFileId env (last filenames))] else [])
           @ flush_effects env @ finally_effects env True
      else [])"
  by (simp add: on_done_def Let_def delete_all_eq done_fn_effects emit_simps drop_iframe_simps)

lemma on_done_iframes:
  "iframes (snd (on_done env filenames ident s)) =
     (if runningFiles s - set filenames = {} then iframes s else AList.delete ident (iframes s))"
  by (simp add: on_done_def Let_def delete_all_eq done_fn_frame emit_simps drop_iframe_simps)

lemma count_flush: "count_list (flush_effects env) RpcDone = 1"
  by (simp add: flush_effects_def)

lemma count_finally: "count_list (finally_effects env tf) RpcDone = 0"
  by (simp add: finally_effects_def)

lemma count_debug: "count_list (debug_effects env args) RpcDone = 0"
  by (simp add: debug_effects_def)

text \<open>
  Claim C4. For every \<open>done\<close> message the running set afterwards is the running set
  before without the named files, so that naming a file that is not in the set changes
  nothing; and \<open>done\<close> is called exactly once if the running set is then empty, and not at
  all otherwise. On the running set \<open>{a, b}\<close>, \<open>done\<close> with filenames \<open>[a]\<close> leaves \<open>{b}\<close> and
  does not finalize; a following \<open>done\<close> with filenames \<open>[b]\<close> leaves the empty set and
  finalizes once.
\<close>

theorem done_event_running_set_and_finalize:
  "runningFiles (state_after env (Done filenames ident) s) = runningFiles s - set filenames
   \<and> count_list (issued env (Done filenames ident) s) RpcDone
        = (if runningFiles s - set filenames = {} then 1 else 0)
   \<and> (set filenames \<inter> runningFiles s = {} \<longrightarrow>
        runningFiles (state_after env (Done filenames ident) s) = runningFiles s)"
proof -
  let ?s0 = "debug env [''channel event'', stringify env (Done filenames ident)] s"
  have r: "runningFiles (state_after env (Done filenames ident) s) = runningFiles s - set filenames"
    by (simp add: state_after_def listener_Done on_done_running debug_simps)
  have e: "effects (snd (listener env (Done filenames ident) s)) = effects s @
     (debug_effects env [''channel event'', stringify env (Done filenames ident)] @
     (if runningFiles s - set filenames = {}
      then (if has_ui env \<and> length filenames > 1
            then [UiSetCurrentFileId (generateFileId env (last filenames))] else [])
           @ flush_effects env @ finally_effects env True
      else []))"
    by (simp add: listener_Done on_done_effects debug_simps)
  have c: "count_list (issued env (Done filenames ident) s) RpcDone
        = (if runningFiles s - set filenames = {} then 1 else 0)"
    unfolding issued_def new_effects_append[OF e]
    by (simp add: count_flush count_finally count_debug)
  from r c show ?thesis by auto
qed

theorem done_event_running_set_and_finalize_witness:
  "runningFiles (state_after example_env (Done [''a''] ''a'') running_ab) = {''b''}
   \<and> count_list (issued example_env (Done [''a''] ''a'') running_ab) RpcDone = 0
   \<and> runningFiles (state_after example_env (Done [''b''] ''b'')
        (state_after example_env (Done [''a''] ''a'') running_ab)) = {}
   \<and> count_list (issued example_env (Done [''b''] ''b'')
        (state_after example_env (Done [''a''] ''a'') running_ab)) RpcDone = 1
   \<and> runningFiles (state_after example_env (Done [''c''] ''c'') running_ab) = {''a'', ''b''}"
proof -
  have r: "runningFiles running_ab = {''a'', ''b''}"
    by (simp add: running_ab_def init_orch_def)
  have d: "{''a'', ''b''} - {''a''} = {''b''}" "{''a'', ''b''} - {''c''} = {''a'', ''b''}"
    by auto
  note a = done_event_running_set_and_finalize [of example_env "[''a'']" "''a''" running_ab]
  note b = done_event_running_set_and_finalize [of example_env "[''b'']" "''b''"
             "state_after example_env (Done [''a''] ''a'') running_ab"]
  note c = done_event_running_set_and_finalize [of example_env "[''c'']" "''c''" running_ab]
  from a have a1: "runningFiles (state_after example_env (Done [''a''] ''a'') running_ab) = {''b''}"
    by (simp add: r d)
  from a have a2: "count_list (issued example_env (Done [''a''] ''a'') running_ab) RpcDone = 0"
    by (simp add: r)
  from b have b1: "runningFiles (state_after example_env (Done [''b''] ''b'')
        (state_after example_env (Done [''a''] ''a'') running_ab)) = {}"
    by (simp add: a1)
  from b have b2: "count_list (issued example_env (Done [''b''] ''b'')
        (state_after example_env (Done [''a''] ''a'') running_ab)) RpcDone = 1"
    by (simp add: a1)
  from c have c1: "runningFiles (state_after example_env (Done [''c''] ''c'') running_ab)
      = {''a'', ''b''}"
    by (simp add: r d)
  from a1 a2 b1 b2 c1 show ?thesis by blast
qed

text \<open>
  Claim C3 says that a \<open>done\<close> message that does not empty the running set never removes
  the handle registered under \<open>ID_ALL\<close>. The branch has no test of the id: it removes the
  handle registered under the id of the message. On the running set \<open>{a, b}\<close> with the
  shared sandbox registered, \<open>done\<close> with filenames \<open>[a]\<close> and id \<open>ID_ALL\<close> leaves \<open>{b}\<close> and
  removes the shared handle.
\<close>

theorem done_event_removes_shared_handle:
  "runningFiles (state_after example_env (Done [''a''] ID_ALL) shared_ab) = {''b''}
   \<and> map_of (iframes shared_ab) ID_ALL = Some 0
   \<and> map_of (iframes (state_after example_env (Done [''a''] ID_ALL) shared_ab)) ID_ALL = None"
  by (simp add: state_after_def listener_Done on_done_running on_done_iframes debug_simps
      shared_ab_simps)

text \<open>
  Claim C3, amended. For every \<open>done\<close> message that does not empty the running set, the
  listener removes exactly the registry entry under the id of the message and leaves every
  other entry as it was: the handle under \<open>ID_ALL\<close> is kept if and only if the id of the
  message is not \<open>ID_ALL\<close> (or no shared handle was registered). A \<open>done\<close> message that
  empties the running set leaves the whole registry as it was.
\<close>

theorem done_event_registry:
  "(runningFiles s - set filenames \<noteq> {} \<longrightarrow>
       iframes (state_after env (Done filenames ident) s) = AList.delete ident (iframes s)
     \<and> map_of (iframes (state_after env (Done filenames ident) s)) ident = None
     \<and> (\<forall>k. k \<noteq> ident \<longrightarrow>
           map_of (iframes (state_after env (Done filenames ident) s)) k = map_of (iframes s) k)
     \<and> (map_of (iframes (state_after env (Done filenames ident) s)) ID_ALL = map_of (iframes s) ID_ALL
          \<longleftrightarrow> ident \<noteq> ID_ALL \<or> map_of (iframes s) ID_ALL = None))
   \<and> (runningFiles s - set filenames = {} \<longrightarrow>
       iframes (state_after env (Done filenames ident) s) = iframes s)"
  by (auto simp add: state_after_def listener_Done on_done_iframes debug_simps delete_conv')

theorem done_event_registry_witness:
  "runningFiles registered_a - set [''a''] \<noteq> {}
   \<and> iframes (state_after example_env (Done [''a''] ''a'') registered_a) = []
   \<and> runningFiles shared_ab - set [''a''] \<noteq> {}
   \<and> ''a'' \<noteq> ID_ALL
   \<and> map_of (iframes (state_after example_env (Done [''a''] ''a'') shared_ab)) ID_ALL = Some 0
   \<and> map_of (iframes (state_after example_env (Done [''a''] ID_ALL) shared_ab)) ID_ALL = None
   \<and> runningFiles shared_ab - set [''a'', ''b''] = {}
   \<and> iframes (state_after example_env (Done [''a'', ''b''] ID_ALL) shared_ab) = [(ID_ALL, 0)]"
proof -
  have ne: "''a'' \<noteq> ID_ALL" by (simp add: ID_ALL_def)
  have d: "{''a'', ''b''} - {''a''} \<noteq> ({} :: string set)" by auto
  note t = done_event_registry [of registered_a "[''a'']" example_env "''a''"]
  note u = done_event_registry [of shared_ab "[''a'']" example_env "''a''"]
  note v = done_event_registry [of shared_ab "[''a'']" example_env ID_ALL]
  note w = done_event_registry [of shared_ab "[''a'', ''b'']" example_env ID_ALL]
  from t d have 1: "iframes (state_after example_env (Done [''a''] ''a'') registered_a) = []"
    by (simp add: registered_a_simps)
  from u d ne have 2: "map_of (iframes (state_after example_env (Done [''a''] ''a'') shared_ab)) ID_ALL = Some 0"
    by (simp add: shared_ab_simps)
  from v d have 3: "map_of (iframes (state_after example_env (Done [''a''] ID_ALL) shared_ab)) ID_ALL = None"
    by (simp add: shared_ab_simps)
  from w have 4: "iframes (state_after example_env (Done [''a'', ''b''] ID_ALL) shared_ab) = [(ID_ALL, 0)]"
    by (simp add: shared_ab_simps)
  from 1 2 3 4 d ne show ?thesis by (simp add: registered_a_simps shared_ab_simps)
qed

subsection \<open>The listener on an error message\<close>

lemma listener_Error:
  "listener env (Error err ty fs ident) s =
     on_error env err ty ident (debug env [''channel event'', stringify env (Error err ty fs ident)] s)"
  by (simp add: listener_def Let_def)

lemma on_error_effects:
  "effects (snd (on_error env err ty ident s)) = effects s @ RpcOnUnhandledError err ty #
     (if onUnhandledError_ok env \<and> (ident = ID_ALL \<or> runningFiles s - {ident} = {})
      then flush_effects env @ finally_effects env True else [])"
  by (simp add: on_error_def on_error_begin_def on_error_resume_def Let_def done_fn_effects emit_simps)

lemma on_error_running:
  "runningFiles (snd (on_error env err ty ident s)) =
     (if onUnhandledError_ok env then (if ident = ID_ALL then {} else runningFiles s - {ident})
      else runningFiles s)"
  by (simp add: on_error_def on_error_begin_def on_error_resume_def Let_def done_fn_frame emit_simps)

lemma on_error_iframes:
  "iframes (snd (on_error env err ty ident s)) = AList.delete ident (iframes s)"
  by (simp add: on_error_def on_error_begin_def on_error_resume_def Let_def done_fn_frame emit_simps)

lemma on_error_dom:
  "elements (snd (on_error env err ty ident s)) = elements s"
  "children (snd (on_error env err ty ident s)) = children s"
  by (simp_all add: on_error_def on_error_begin_def on_error_resume_def Let_def done_fn_frame emit_simps)

lemma issued_Error:
  "issued env (Error err ty fs ident) s =
     debug_effects env [''channel event'', stringify env (Error err ty fs ident)] @
     RpcOnUnhandledError err ty #
     (if onUnhandledError_ok env \<and> (ident = ID_ALL \<or> runningFiles s - {ident} = {})
      then flush_effects env @ finally_effects env True else [])"
proof -
  have "effects (snd (listener env (Error err ty fs ident) s)) = effects s @
     (debug_effects env [''channel event'', stringify env (Error err ty fs ident)] @
     RpcOnUnhandledError err ty #
     (if onUnhandledError_ok env \<and> (ident = ID_ALL \<or> runningFiles s - {ident} = {})
      then flush_effects env @ finally_effects env True else []))"
    by (simp only: listener_Error on_error_effects debug_simps append_assoc append_Cons)
  then show ?thesis unfolding issued_def by (rule new_effects_append)
qed

lemma filter_report_debug: "filter is_report (debug_effects env args) = []"
  by (simp add: debug_effects_def)

lemma filter_report_flush: "filter is_report (flush_effects env) = []"
  by (simp add: flush_effects_def)

lemma filter_report_finally: "filter is_report (finally_effects env tf) = []"
  by (simp add: finally_effects_def)

text \<open>
  Claim C5. The listener awaits the report to the host before it touches the running set.
  When that report resolves: for every \<open>error\<close> message with id \<open>ID_ALL\<close> the running set is
  empty afterwards, whatever it held, the error has been reported once with the error and
  error type of the message, and \<open>done\<close> has been called once; for every \<open>error\<close> message
  with another id the running set afterwards is the one before without that id, the error
  has been reported once, and \<open>done\<close> has been called once if the set is then empty and
  not at all otherwise.
\<close>

theorem error_event_running_set_and_finalize:
  "onUnhandledError_ok env \<Longrightarrow>
     runningFiles (state_after env (Error err ty fs ID_ALL) s) = {}
   \<and> filter is_report (issued env (Error err ty fs ID_ALL) s) = [RpcOnUnhandledError err ty]
   \<and> count_list (issued env (Error err ty fs ID_ALL) s) RpcDone = 1
   \<and> (ident \<noteq> ID_ALL \<longrightarrow>
        runningFiles (state_after env (Error err ty fs ident) s) = runningFiles s - {ident}
      \<and> filter is_report (issued env (Error err ty fs ident) s) = [RpcOnUnhandledError err ty]
      \<and> count_list (issued env (Error err ty fs ident) s) RpcDone
           = (if runningFiles s - {ident} = {} then 1 else 0))"
  by (auto simp add: state_after_def listener_Error on_error_running debug_simps issued_Error
      filter_report_debug filter_report_flush filter_report_finally
      count_flush count_finally count_debug)

theorem error_event_running_set_and_finalize_witness:
  "onUnhandledError_ok example_env
   \<and> runningFiles (state_after example_env (Error (JsError ''Error'' ''boom'') ''Error'' [] ID_ALL) running_xyz) = {}
   \<and> filter is_report (issued example_env (Error (JsError ''Error'' ''boom'') ''Error'' [] ID_ALL) running_xyz)
        = [RpcOnUnhandledError (JsError ''Error'' ''boom'') ''Error'']
   \<and> count_list (issued example_env (Error (JsError ''Error'' ''boom'') ''Error'' [] ID_ALL) running_xyz) RpcDone = 1
   \<and> ''x'' \<noteq> ID_ALL
   \<and> runningFiles (state_after example_env (Error (JsError ''Error'' ''boom'') ''Error'' [] ''x'') running_xyz)
        = {''y'', ''z''}
   \<and> count_list (issued example_env (Error (JsError ''Error'' ''boom'') ''Error'' [] ''x'') running_xyz) RpcDone = 0"
proof -
  have ok: "onUnhandledError_ok example_env" by (simp add: example_env_def)
  have ne: "''x'' \<noteq> ID_ALL" by (simp add: ID_ALL_def)
  have r: "runningFiles running_xyz = {''x'', ''y'', ''z''}"
    by (simp add: running_xyz_def init_orch_def)
  have d: "{''x'', ''y'', ''z''} - {''x''} = {''y'', ''z''}"
    by auto
  note t = error_event_running_set_and_finalize [OF ok, of "JsError ''Error'' ''boom''" "''Error''" "[]"
      running_xyz "''x''"]
  from t ne ok show ?thesis by (simp add: r d)
qed

text \<open>
  When the report rejects, the listener's promise rejects at that \<open>await\<close>: the running
  set is left as it was and \<open>done\<close> is not called.
\<close>

lemma error_report_rejected:
  "\<not> onUnhandledError_ok env \<Longrightarrow>
     fst (listener env (Error err ty fs ident) s) = Rejected
   \<and> runningFiles (state_after env (Error err ty fs ident) s) = runningFiles s
   \<and> count_list (issued env (Error err ty fs ident) s) RpcDone = 0"
  by (simp add: state_after_def listener_Error on_error_running debug_simps issued_Error count_debug)
     (simp add: on_error_def on_error_begin_def on_error_resume_def Let_def)

text \<open>
  Claim C10. For every \<open>error\<close> message whose id is not \<open>ID_ALL\<close>, whether the report to
  the host resolves or rejects: the registry afterwards is the registry before without
  the entry under that id, so every entry under another id is as it was; the running set
  afterwards lies between the running set before without that id and the running set
  before; and no iframe element and no child of the container is touched.
\<close>

theorem error_event_frame:
  "ident \<noteq> ID_ALL \<Longrightarrow>
     iframes (state_after env (Error err ty fs ident) s) = AList.delete ident (iframes s)
   \<and> (\<forall>k. k \<noteq> ident \<longrightarrow>
         map_of (iframes (state_after env (Error err ty fs ident) s)) k = map_of (iframes s) k)
   \<and> runningFiles s - {ident} \<subseteq> runningFiles (state_after env (Error err ty fs ident) s)
   \<and> runningFiles (state_after env (Error err ty fs ident) s) \<subseteq> runningFiles s
   \<and> elements (state_after env (Error err ty fs ident) s) = elements s
   \<and> children (state_after env (Error err ty fs ident) s) = children s"
  by (auto simp add: state_after_def listener_Error on_error_running on_error_iframes on_error_dom
      debug_simps)

theorem error_event_frame_witness:
  "''a'' \<noteq> ID_ALL
   \<and> iframes (state_after example_env (Error (JsError ''Error'' ''boom'') ''Error'' [] ''a'') registered_a) = []
   \<and> map_of (iframes (state_after example_env (Error (JsError ''Error'' ''boom'') ''Error'' [] ''a'')
        (snd (createIframe example_env ''b'' registered_a)))) ''b'' = Some 1
   \<and> runningFiles (state_after example_env (Error (JsError ''Error'' ''boom'') ''Error'' [] ''a'') registered_a)
        \<subseteq> {''a'', ''b''}
   \<and> {''b''} \<subseteq> runningFiles (state_after example_env (Error (JsError ''Error'' ''boom'') ''Error'' [] ''a'') registered_a)
   \<and> children (state_after example_env (Error (JsError ''Error'' ''boom'') ''Error'' [] ''a'') registered_a) = [0]"
proof -
  have ne: "''a'' \<noteq> ID_ALL" by (simp add: ID_ALL_def)
  note t = error_event_frame [OF ne, of example_env "JsError ''Error'' ''boom''" "''Error''" "[]" registered_a]
  note u = error_event_frame [OF ne, of example_env "JsError ''Error'' ''boom''" "''Error''" "[]"
     "snd (createIframe example_env ''b'' registered_a)"]
  have b: "map_of (iframes (snd (createIframe example_env ''b'' registered_a))) ''b'' = Some 1"
    by (simp add: createIframe_def Let_def emit_simps registered_a_simps)
  have d: "{''a'', ''b''} - {''a''} = {''b''}" by auto
  from u b have 1: "map_of (iframes (state_after example_env (Error (JsError ''Error'' ''boom'') ''Error'' [] ''a'')
        (snd (createIframe example_env ''b'' registered_a)))) ''b'' = Some 1"
    by simp
  from t ne 1 show ?thesis by (simp add: registered_a_simps d)
qed

text \<open>
  The same holds for the part after the \<open>await\<close> taken alone, on whatever state the module
  is in when the report has resolved.
\<close>

lemma error_resume_frame:
  "ident \<noteq> ID_ALL \<Longrightarrow>
     iframes (snd (on_error_resume env ident s)) = iframes s
   \<and> runningFiles (snd (on_error_resume env ident s)) = runningFiles s - {ident}
   \<and> elements (snd (on_error_resume env ident s)) = elements s
   \<and> children (snd (on_error_resume env ident s)) = children s"
  by (simp add: on_error_resume_def Let_def done_fn_frame)

subsection \<open>The listener on a message of another type\<close>

lemma listener_unexpected:
  "unexpected e \<Longrightarrow>
     listener env e s = on_default env (event_type e) (debug env [''channel event'', stringify env e] s)"
  by (cases e) (simp_all add: listener_def Let_def)

lemma on_default_effects:
  "effects (snd (on_default env tag s)) = effects s @
     RpcOnUnhandledError (JsError ''Unexpected Event'' (''Unexpected event: '' @ tag)) ''Unexpected Event'' #
     (if onUnhandledError_ok env then flush_effects env else [])"
  by (simp add: on_default_def Let_def done_fn_effects emit_simps finally_effects_def)

lemma on_default_frame:
  "iframes (snd (on_default env tag s)) = iframes s"
  "runningFiles (snd (on_default env tag s)) = runningFiles s"
  "elements (snd (on_default env tag s)) = elements s"
  "children (snd (on_default env tag s)) = children s"
  by (simp_all add: on_default_def Let_def done_fn_frame emit_simps)

lemma issued_unexpected:
  assumes "unexpected e"
  shows "issued env e s = debug_effects env [''channel event'', stringify env e] @
     unexpected_report e # (if onUnhandledError_ok env then flush_effects env else [])"
proof -
  have "effects (snd (listener env e s)) = effects s @
     (debug_effects env [''channel event'', stringify env e] @
     unexpected_report e # (if onUnhandledError_ok env then flush_effects env else []))"
    by (simp add: listener_unexpected[OF assms] on_default_effects debug_simps unexpected_report_def)
  then show ?thesis unfolding issued_def by (rule new_effects_append)
qed

text \<open>
  Claim C7. For every message that reaches the \<open>default\<close> branch (a message of an unknown
  type; an acknowledgement \<open>viewport:done\<close> or \<open>viewport:fail\<close> reaches it as well): exactly
  one report is sent to the host, the report of an unexpected event naming the type;
  \<open>runTestsFinish\<close> is not called; running set and registry are as before. When the report
  resolves, \<open>done\<close> is called exactly once; when \<open>rpcDone\<close> resolves as well, the calls are
  the report, \<open>rpcDone\<close> and \<open>finishBrowserTests\<close>, in this order, and nothing else but the
  debug line.
\<close>

theorem unexpected_event_degraded_finalize:
  "unexpected e \<Longrightarrow>
     filter is_report (issued env e s) = [unexpected_report e]
   \<and> UiRunTestsFinish \<notin> set (issued env e s)
   \<and> runningFiles (state_after env e s) = runningFiles s
   \<and> iframes (state_after env e s) = iframes s
   \<and> (onUnhandledError_ok env \<longrightarrow> count_list (issued env e s) RpcDone = 1)
   \<and> (onUnhandledError_ok env \<and> rpcDone_ok env \<longrightarrow>
        issued env e s = debug_effects env [''channel event'', stringify env e]
                           @ [unexpected_report e, RpcDone, RpcFinishBrowserTests])"
  by (simp add: issued_unexpected state_after_def listener_unexpected on_default_frame debug_simps
      filter_report_debug filter_report_flush count_flush count_debug)
     (simp add: unexpected_report_def flush_effects_def debug_effects_def)

theorem unexpected_event_degraded_finalize_witness:
  "unexpected (Unknown ''ping'')
   \<and> onUnhandledError_ok (example_env\<lparr> has_ui := True \<rparr>)
   \<and> rpcDone_ok (example_env\<lparr> has_ui := True \<rparr>)
   \<and> issued (example_env\<lparr> has_ui := True \<rparr>) (Unknown ''ping'') running_ab
        = [RpcOnUnhandledError (JsError ''Unexpected Event'' ''Unexpected event: ping'')
             ''Unexpected Event'', RpcDone, RpcFinishBrowserTests]
   \<and> UiRunTestsFinish \<notin> set (issued (example_env\<lparr> has_ui := True \<rparr>) (Unknown ''ping'') running_ab)
   \<and> count_list (issued (example_env\<lparr> has_ui := True \<rparr>) (Unknown ''ping'') running_ab) RpcDone = 1"
proof -
  have u: "unexpected (Unknown ''ping'')" by simp
  note t = unexpected_event_degraded_finalize [OF u, of "example_env\<lparr> has_ui := True \<rparr>" running_ab]
  from t show ?thesis
    by (simp add: example_env_def debug_effects_def debug_enabled_def unexpected_report_def)
qed

subsection \<open>The listener on a viewport message\<close>

lemma listener_Viewport:
  "listener env (Viewport w h ident) s =
     on_viewport env w h ident (debug env [''channel event'', stringify env (Viewport w h ident)] s)"
  by (simp add: listener_def Let_def)

lemma on_viewport_missing:
  assumes "map_of (iframes s) ident = None"
  shows "effects (snd (on_viewport env w h ident s)) = effects s @ viewport_fail_effects ident"
    and "iframes (snd (on_viewport env w h ident s)) = iframes s"
    and "runningFiles (snd (on_viewport env w h ident s)) = runningFiles s"
    and "elements (snd (on_viewport env w h ident s)) = elements s"
    and "children (snd (on_viewport env w h ident s)) = children s"
  using assms by (simp_all add: on_viewport_def Let_def emit_simps viewport_fail_effects_def)

lemma on_viewport_present:
  assumes "map_of (iframes s) ident = Some el" and "has_ui env \<longrightarrow> ui_setIframeViewport_ok env"
  shows "effects (snd (on_viewport env w h ident s)) = effects s @
           (if has_ui env then [UiSetIframeViewport w h] else []) @ [PostMessage (ViewportDone ident)]"
    and "iframes (snd (on_viewport env w h ident s)) = iframes s"
    and "runningFiles (snd (on_viewport env w h ident s)) = runningFiles s"
    and "elements (snd (on_viewport env w h ident s)) = elements (setIframeViewport_call env el w h s)"
  using assms
  by (simp_all add: on_viewport_def setIframeViewport_def viewport_outcome_def emit_simps
      viewport_call_simps)

text \<open>
  Claim C8. For every \<open>viewport\<close> message whose id names no registered iframe, the listener
  posts one \<open>viewport:fail\<close> message, sends one report to the host, and leaves running set,
  registry and iframe elements as they were. For every \<open>viewport\<close> message whose id names a
  registered iframe, and the adapter's promise resolving if an adapter is installed, it
  applies the resize (through the adapter if one is installed, on the element's own width
  and height otherwise), then posts one \<open>viewport:done\<close> message, and leaves running set
  and registry as they were.
\<close>

theorem viewport_event_acknowledged:
  "(map_of (iframes s) ident = None \<longrightarrow>
       issued env (Viewport w h ident) s
         = debug_effects env [''channel event'', stringify env (Viewport w h ident)]
           @ viewport_fail_effects ident
     \<and> runningFiles (state_after env (Viewport w h ident) s) = runningFiles s
     \<and> iframes (state_after env (Viewport w h ident) s) = iframes s
     \<and> elements (state_after env (Viewport w h ident) s) = elements s)
   \<and> (map_of (iframes s) ident = Some el \<and> el < length (elements s)
        \<and> (has_ui env \<longrightarrow> ui_setIframeViewport_ok env) \<longrightarrow>
       issued env (Viewport w h ident) s
         = debug_effects env [''channel event'', stringify env (Viewport w h ident)]
           @ (if has_ui env then [UiSetIframeViewport w h] else [])
           @ [PostMessage (ViewportDone ident)]
     \<and> (\<not> has_ui env \<longrightarrow>
           style_width (elements (state_after env (Viewport w h ident) s) ! el) = Some w
         \<and> style_height (elements (state_after env (Viewport w h ident) s) ! el) = Some h)
     \<and> runningFiles (state_after env (Viewport w h ident) s) = runningFiles s
     \<and> iframes (state_after env (Viewport w h ident) s) = iframes s)"
proof (intro conjI impI)
  let ?s0 = "debug env [''channel event'', stringify env (Viewport w h ident)] s"
  {
    assume m: "map_of (iframes s) ident = None"
    then have m0: "map_of (iframes ?s0) ident = None" by (simp add: debug_simps)
    have "effects (snd (listener env (Viewport w h ident) s)) = effects s @
        (debug_effects env [''channel event'', stringify env (Viewport w h ident)]
           @ viewport_fail_effects ident)"
      by (simp add: listener_Viewport on_viewport_missing[OF m0] debug_simps)
    then show "issued env (Viewport w h ident) s
         = debug_effects env [''channel event'', stringify env (Viewport w h ident)]
           @ viewport_fail_effects ident"
      unfolding issued_def by (rule new_effects_append)
    show "runningFiles (state_after env (Viewport w h ident) s) = runningFiles s"
      by (simp add: state_after_def listener_Viewport on_viewport_missing[OF m0] debug_simps)
    show "iframes (state_after env (Viewport w h ident) s) = iframes s"
      by (simp add: state_after_def listener_Viewport on_viewport_missing[OF m0] debug_simps)
    show "elements (state_after env (Viewport w h ident) s) = elements s"
      by (simp add: state_after_def listener_Viewport on_viewport_missing[OF m0] debug_simps)
  }
  {
    assume a: "map_of (iframes s) ident = Some el \<and> el < length (elements s)
        \<and> (has_ui env \<longrightarrow> ui_setIframeViewport_ok env)"
    then have m0: "map_of (iframes ?s0) ident = Some el" by (simp add: debug_simps)
    from a have ok: "has_ui env \<longrightarrow> ui_setIframeViewport_ok env" by simp
    from a have el: "el < length (elements ?s0)" by (simp add: debug_simps)
    have "effects (snd (listener env (Viewport w h ident) s)) = effects s @
        (debug_effects env [''channel event'', stringify env (Viewport w h ident)]
           @ (if has_ui env then [UiSetIframeViewport w h] else [])
           @ [PostMessage (ViewportDone ident)])"
      by (simp add: listener_Viewport on_viewport_present[OF m0 ok] debug_simps)
    then show "issued env (Viewport w h ident) s
         = debug_effects env [''channel event'', stringify env (Viewport w h ident)]
           @ (if has_ui env then [UiSetIframeViewport w h] else [])
           @ [PostMessage (ViewportDone ident)]"
      unfolding issued_def by (rule new_effects_append)
    show "runningFiles (state_after env (Viewport w h ident) s) = runningFiles s"
      by (simp add: state_after_def listener_Viewport on_viewport_present[OF m0 ok] debug_simps)
    show "iframes (state_after env (Viewport w h ident) s) = iframes s"
      by (simp add: state_after_def listener_Viewport on_viewport_present[OF m0 ok] debug_simps)
    {
      assume "\<not> has_ui env"
      then show "style_width (elements (state_after env (Viewport w h ident) s) ! el) = Some w"
        using set_size_elements[OF el, of w h]
        by (simp add: state_after_def listener_Viewport on_viewport_present[OF m0 ok]
            setIframeViewport_call_def)
    }
    {
      assume "\<not> has_ui env"
      then show "style_height (elements (state_after env (Viewport w h ident) s) ! el) = Some h"
        using set_size_elements[OF el, of w h]
        by (simp add: state_after_def listener_Viewport on_viewport_present[OF m0 ok]
            setIframeViewport_call_def)
    }
  }
qed

theorem viewport_event_acknowledged_witness:
  "map_of (iframes registered_a) ''zzz'' = None
   \<and> issued example_env (Viewport 800 600 ''zzz'') registered_a
        = [PostMessage (ViewportFail ''zzz'' ''Cannot find iframe with id zzz''),
           RpcOnUnhandledError (JsError ''Teardown Error'' ''Cannot find iframe with id zzz'')
             ''Teardown Error'']
   \<and> runningFiles (state_after example_env (Viewport 800 600 ''zzz'') registered_a) = {''a'', ''b''}
   \<and> iframes (state_after example_env (Viewport 800 600 ''zzz'') registered_a) = [(''a'', 0)]
   \<and> map_of (iframes registered_a) ''a'' = Some 0
   \<and> issued example_env (Viewport 800 600 ''a'') registered_a = [PostMessage (ViewportDone ''a'')]
   \<and> style_width (elements (state_after example_env (Viewport 800 600 ''a'') registered_a) ! 0) = Some 800
   \<and> style_height (elements (state_after example_env (Viewport 800 600 ''a'') registered_a) ! 0) = Some 600"
proof -
  note m = viewport_event_acknowledged [of registered_a "''zzz''" example_env 800 600 0]
  note p = viewport_event_acknowledged [of registered_a "''a''" example_env 800 600 0]
  have e: "debug_effects example_env args = []" "\<not> has_ui example_env" for args
    by (simp_all add: example_env_def debug_effects_def debug_enabled_def)
  from m have 1: "issued example_env (Viewport 800 600 ''zzz'') registered_a
        = [PostMessage (ViewportFail ''zzz'' ''Cannot find iframe with id zzz''),
           RpcOnUnhandledError (JsError ''Teardown Error'' ''Cannot find iframe with id zzz'')
             ''Teardown Error'']
     \<and> runningFiles (state_after example_env (Viewport 800 600 ''zzz'') registered_a) = {''a'', ''b''}
     \<and> iframes (state_after example_env (Viewport 800 600 ''zzz'') registered_a) = [(''a'', 0)]"
    by (simp add: registered_a_simps e viewport_fail_effects_def)
  from p have 2: "issued example_env (Viewport 800 600 ''a'') registered_a = [PostMessage (ViewportDone ''a'')]
   \<and> style_width (elements (state_after example_env (Viewport 800 600 ''a'') registered_a) ! 0) = Some 800
   \<and> style_height (elements (state_after example_env (Viewport 800 600 ''a'') registered_a) ! 0) = Some 600"
    by (simp add: registered_a_simps e)
  from 1 2 show ?thesis by (simp add: registered_a_simps)
qed

subsection \<open>The listener from await to await\<close>

text \<open>
  What one run of the listener does up to its first \<open>await\<close>, and what it does when it is
  resumed, on the state the module is in at that moment: registry, running set, iframe
  elements, children of the container, and the calls it makes.
\<close>

lemmas begin_defs = listener_begin_def done_begin_def default_begin_def on_error_begin_def Let_def

lemma listener_begin_iframes:
  "iframes (snd (listener_begin env e s)) =
     (case e of
        Done fns i \<Rightarrow> (if runningFiles s - set fns = {} then iframes s else AList.delete i (iframes s))
      | Error err ty fs i \<Rightarrow> AList.delete i (iframes s)
      | _ \<Rightarrow> iframes s)"
  by (cases e)
     (simp_all add: begin_defs delete_all_eq emit_simps debug_simps drop_iframe_simps
        viewport_call_simps split: option.splits)

lemma listener_begin_running:
  "runningFiles (snd (listener_begin env e s)) =
     (case e of Done fns i \<Rightarrow> runningFiles s - set fns | _ \<Rightarrow> runningFiles s)"
  by (cases e)
     (simp_all add: begin_defs delete_all_eq emit_simps debug_simps drop_iframe_simps
        viewport_call_simps split: option.splits)

lemma listener_begin_elements:
  "length (elements (snd (listener_begin env e s))) = length (elements s)"
  by (cases e)
     (simp_all add: begin_defs delete_all_eq emit_simps debug_simps drop_iframe_simps
        viewport_call_simps split: option.splits)

lemma drop_iframe_children:
  "children (drop_iframe i s) =
     (case map_of (iframes s) i of Some el \<Rightarrow> removeAll el (children s) | None \<Rightarrow> children s)"
  by (simp add: drop_iframe_def remove_el_def Let_def split: option.splits)

lemma listener_begin_children:
  "children (snd (listener_begin env e s)) =
     (case e of
        Done fns i \<Rightarrow>
          (if runningFiles s - set fns = {} then children s
           else (case map_of (iframes s) i of Some el \<Rightarrow> removeAll el (children s) | None \<Rightarrow> children s))
      | _ \<Rightarrow> children s)"
  by (cases e)
     (simp_all add: begin_defs delete_all_eq emit_simps debug_simps drop_iframe_children
        viewport_call_simps split: option.splits)

lemma listener_begin_effects:
  "\<exists>xs. effects (snd (listener_begin env e s)) = effects s @ xs \<and> filter is_append xs = []"
  by (cases e)
     (simp_all add: begin_defs delete_all_eq emit_simps debug_simps drop_iframe_simps
        viewport_call_simps debug_effects_def split: option.splits)

lemma listener_begin_suspended:
  "c \<in> set (suspended (fst (listener_begin env e s))) \<Longrightarrow>
     (case c of ErrorReported i \<Rightarrow> (\<exists>err ty fs. e = Error err ty fs i) | _ \<Rightarrow> True)"
  by (cases e) (auto simp add: begin_defs split: option.splits if_splits cont.splits)

lemma listener_resume_frame:
  "iframes (snd (listener_resume env ok c s)) = iframes s"
  "elements (snd (listener_resume env ok c s)) = elements s"
  "children (snd (listener_resume env ok c s)) = children s"
  by (cases c; simp add: listener_resume_def done_begin_def done_finally_def Let_def emit_simps
        split: outcome.splits)+

lemma listener_resume_running:
  "runningFiles (snd (listener_resume env ok c s)) =
     (case c of
        ErrorReported i \<Rightarrow>
          (if ok then (if i = ID_ALL then {} else runningFiles s - {i}) else runningFiles s)
      | _ \<Rightarrow> runningFiles s)"
  by (cases c; simp add: listener_resume_def done_begin_def done_finally_def Let_def emit_simps
        split: outcome.splits)

lemma listener_resume_effects:
  "\<exists>xs. effects (snd (listener_resume env ok c s)) = effects s @ xs \<and> filter is_append xs = []"
  by (cases c; simp add: listener_resume_def done_begin_def done_finally_def Let_def emit_simps
        split: outcome.splits)

lemma listener_resume_suspended:
  "c' \<in> set (suspended (fst (listener_resume env ok c s))) \<Longrightarrow> harmless fs c'"
  by (cases c; auto simp add: listener_resume_def done_begin_def Let_def
        split: outcome.splits if_splits)

text \<open>
  A run of the listener that is resumed at once at each of its (at most three) \<open>await\<close>s,
  with nothing in between, is the run described by \<open>listener\<close>.
\<close>

lemma listener_in_steps:
  "advance env (advance env (advance env (listener_begin env e s)))
     = (Finished (fst (listener env e s)), snd (listener env e s))"
proof (cases e)
  case (Viewport w h i)
  then show ?thesis
    by (simp add: begin_defs listener_def on_viewport_def setIframeViewport_def
        listener_resume_def viewport_outcome_def split: option.splits)
next
  case (Done fns i)
  then show ?thesis
    by (simp add: begin_defs listener_def on_done_def done_fn_def listener_resume_def)
next
  case (Error err ty fs i)
  then show ?thesis
    by (simp add: begin_defs listener_def on_error_def on_error_resume_def done_fn_def
        listener_resume_def emit_simps)
next
  case (ViewportAck ok)
  then show ?thesis
    by (simp add: begin_defs listener_def on_default_def done_fn_def listener_resume_def done_finally_def)
next
  case (Unknown tag)
  then show ?thesis
    by (simp add: begin_defs listener_def on_default_def done_fn_def listener_resume_def done_finally_def)
qed

subsection \<open>The registry holds one handle for an identifier\<close>

lemma registry_ok_init: "registry_ok init_orch"
  by (simp add: registry_ok_def init_orch_def)

lemma registry_ok_empty: "iframes s = [] \<Longrightarrow> registry_ok s"
  by (simp add: registry_ok_def)

lemma registry_ok_same:
  assumes "registry_ok s" "iframes s' = iframes s" "length (elements s') = length (elements s)"
  shows "registry_ok s'"
  using assms by (simp add: registry_ok_def)

lemma registry_ok_delete:
  assumes "registry_ok s" "iframes s' = AList.delete k (iframes s)"
    "length (elements s') = length (elements s)"
  shows "registry_ok s'"
  using assms
  by (simp add: registry_ok_def delete_filter distinct_map_filter list_all_iff)

lemma registry_ok_createIframe:
  assumes "registry_ok s"
  shows "registry_ok (snd (createIframe env file s))"
proof -
  from assms have b: "\<forall>el \<in> snd ` set (iframes s). el < length (elements s)"
    by (auto simp add: registry_ok_def list_all_iff)
  then have n: "length (elements s) \<notin> snd ` set (filter (\<lambda>p. fst p \<noteq> file) (iframes s))"
    by auto
  from assms show ?thesis
    using b n
    by (auto simp add: registry_ok_def createIframe_iframes createIframe_simps delete_filter
        distinct_map_filter list_all_iff less_Suc_eq)
qed

lemma listener_elements_length:
  "length (elements (snd (listener env e s))) = length (elements s)"
  by (cases e)
     (simp_all add: listener_def Let_def on_viewport_def on_done_def on_error_def on_error_begin_def on_error_resume_def on_default_def
        setIframeViewport_def viewport_call_simps done_fn_frame emit_simps debug_simps
        drop_iframe_simps split: option.splits outcome.splits prod.splits)

lemma listener_iframes:
  "iframes (snd (listener env e s)) = iframes s
   \<or> (\<exists>k. iframes (snd (listener env e s)) = AList.delete k (iframes s))"
  by (cases e)
     (auto simp add: listener_def Let_def on_viewport_def on_done_def on_error_def on_error_begin_def on_error_resume_def on_default_def
        setIframeViewport_def viewport_call_simps done_fn_frame emit_simps debug_simps
        drop_iframe_simps viewport_outcome_def split: option.splits outcome.splits prod.splits)

lemma registry_ok_listener:
  assumes "registry_ok s"
  shows "registry_ok (snd (listener env e s))"
  using listener_iframes [of env e s] listener_elements_length [of env e s] assms
  by (auto intro: registry_ok_same registry_ok_delete)

lemma registry_ok_listener_begin:
  assumes "registry_ok s"
  shows "registry_ok (snd (listener_begin env e s))"
proof (cases e)
  case (Done fns i)
  show ?thesis
  proof (cases "runningFiles s - set fns = {}")
    case True
    then show ?thesis
      by (intro registry_ok_same [OF assms]) (simp_all add: listener_begin_iframes listener_begin_elements Done)
  next
    case False
    then show ?thesis
      by (intro registry_ok_delete [OF assms, of _ i])
         (simp_all add: listener_begin_iframes listener_begin_elements Done)
  qed
next
  case (Error err ty fs i)
  show ?thesis
    by (intro registry_ok_delete [OF assms, of _ i])
       (simp_all add: listener_begin_iframes listener_begin_elements Error)
qed (auto intro!: registry_ok_same [OF assms] simp add: listener_begin_iframes listener_begin_elements)

lemma registry_ok_listener_resume:
  assumes "registry_ok s"
  shows "registry_ok (snd (listener_resume env ok c s))"
  by (rule registry_ok_same [OF assms]) (simp_all add: listener_resume_frame)

lemma system_step_Message:
  "system_step env (Message e) (s, t, cs) =
     (snd (listener_begin env e s), handler e t, cs @ suspended (fst (listener_begin env e s)))"
  by (simp add: split_def Let_def)

lemma system_step_Settles:
  "system_step env (Settles k ok) (s, t, cs) =
     (if k < length cs
      then (snd (listener_resume env ok (cs ! k) s), t,
            replace_cont k (fst (listener_resume env ok (cs ! k) s)) cs)
      else (s, t, cs))"
  by (simp add: split_def Let_def)

lemma system_step_other:
  "system_step env (ContainerPoll found) (s, t, cs)
     = (fst (step env (ContainerPoll found) (s, t)), snd (step env (ContainerPoll found) (s, t)), cs)"
  "system_step env (ViewportSettled ok) (s, t, cs)
     = (fst (step env (ViewportSettled ok) (s, t)), snd (step env (ViewportSettled ok) (s, t)), cs)"
  "system_step env Continue (s, t, cs)
     = (fst (step env Continue (s, t)), snd (step env Continue (s, t)), cs)"
  by (simp_all add: split_def Let_def)

lemma filter_removeAll: "filter P (removeAll x xs) = filter (\<lambda>y. P y \<and> y \<noteq> x) xs"
  by (induction xs) auto

lemma remove_all_iframes_simps:
  "iframes (remove_all_iframes s) = []"
  by (simp_all add: remove_all_iframes_def)

lemma fold_remove_el:
  "elements (fold (\<lambda>(ident, iframe) s'. remove_el iframe s') al s) = elements s
   \<and> effects (fold (\<lambda>(ident, iframe) s'. remove_el iframe s') al s) = effects s
   \<and> runningFiles (fold (\<lambda>(ident, iframe) s'. remove_el iframe s') al s) = runningFiles s
   \<and> children (fold (\<lambda>(ident, iframe) s'. remove_el iframe s') al s)
        = filter (\<lambda>el. el \<notin> snd ` set al) (children s)"
proof (induction al arbitrary: s)
  case Nil
  then show ?case by simp
next
  case (Cons p al)
  obtain k el where p: "p = (k, el)" by (cases p)
  have "filter (\<lambda>x. x \<notin> snd ` set al) (removeAll el (children s))
      = filter (\<lambda>x. x \<notin> snd ` set ((k, el) # al)) (children s)"
    unfolding filter_removeAll by (rule filter_cong) auto
  then show ?case using Cons [of "remove_el el s"]
    by (simp add: p remove_el_def)
qed

lemma remove_all_iframes_simps2:
  "elements (remove_all_iframes s) = elements s"
  "effects (remove_all_iframes s) = effects s"
  "runningFiles (remove_all_iframes s) = runningFiles s"
  "children (remove_all_iframes s) = filter (\<lambda>el. el \<notin> snd ` set (iframes s)) (children s)"
  by (simp_all add: remove_all_iframes_def fold_remove_el)

lemma registry_ok_viewport_call:
  "registry_ok s \<Longrightarrow> registry_ok (setIframeViewport_call env el w h s)"
  by (rule registry_ok_same) (simp_all add: viewport_call_simps)

lemma registry_ok_loop: "registry_ok s \<Longrightarrow> registry_ok (fst (loop env files s))"
  by (cases files)
     (simp_all add: split_def Let_def registry_ok_viewport_call registry_ok_createIframe)

lemma registry_ok_after_container: "registry_ok (fst (after_container env files s))"
proof -
  let ?s1 = "if browser_ui env then s\<lparr> container_class := ''scrolls'', children := [] \<rparr> else s"
  have "registry_ok (remove_all_iframes ?s1)"
    by (rule registry_ok_empty) (simp add: remove_all_iframes_simps)
  then show ?thesis
    by (simp add: after_container_def Let_def split_def registry_ok_loop
        registry_ok_viewport_call registry_ok_createIframe)
qed

lemma registry_ok_step: "registry_ok s \<Longrightarrow> registry_ok (fst (step env i (s, t)))"
  by (cases "(env, i, (s, t))" rule: step.cases)
     (simp_all add: registry_ok_after_container registry_ok_loop split: outcome.splits)

lemma registry_ok_system_step:
  "registry_ok s \<Longrightarrow> registry_ok (fst (system_step env i (s, t, cs)))"
  by (cases i)
     (simp_all add: system_step_Message system_step_Settles system_step_other
        registry_ok_listener_begin registry_ok_listener_resume registry_ok_step
        del: system_step.simps)

lemma registry_ok_run:
  "registry_ok (fst st) \<Longrightarrow> registry_ok (fst (run env ins st))"
proof (induction ins arbitrary: st)
  case Nil
  then show ?case by simp
next
  case (Cons i ins)
  obtain s t cs where st: "st = (s, t, cs)" by (cases st)
  with Cons.prems have "registry_ok (fst (system_step env i st))"
    by (simp add: registry_ok_system_step)
  then show ?case using Cons.IH by simp
qed

lemma registry_ok_on_open: "registry_ok s \<Longrightarrow> registry_ok (fst (on_open env testFiles s))"
  by (simp add: on_open_def Let_def createTesters_start_def registry_ok_def debug_simps)

lemma one_handle: "registry_ok s \<Longrightarrow> length (handles_for ident s) \<le> 1"
proof -
  assume "registry_ok s"
  then have d: "distinct (map fst (iframes s))" by (simp add: registry_ok_def)
  have "distinct (map fst al) \<Longrightarrow> length (filter (\<lambda>entry. fst entry = ident) al) \<le> 1" for al :: "(string \<times> nat) list"
    by (induction al) (auto simp add: filter_empty_conv image_iff)
  from this[OF d] show ?thesis by (simp add: handles_for_def)
qed

lemma old_handle_gone:
  assumes ok: "registry_ok s" and old: "map_of (iframes s) file = Some old"
  shows "old \<notin> set (map snd (iframes (snd (createIframe env file s))))"
    and "old \<notin> set (children (snd (createIframe env file s)))"
proof -
  from old have mem: "(file, old) \<in> set (iframes s)" by (rule map_of_SomeD)
  from ok have inj: "inj_on snd (set (iframes s))" and lt: "\<forall>p \<in> set (iframes s). snd p < length (elements s)"
    by (auto simp add: registry_ok_def distinct_map list_all_iff)
  from lt mem have ne: "old \<noteq> length (elements s)" by fastforce
  have "old \<notin> snd ` set (filter (\<lambda>p. fst p \<noteq> file) (iframes s))"
  proof
    assume "old \<in> snd ` set (filter (\<lambda>p. fst p \<noteq> file) (iframes s))"
    then obtain p where p: "p \<in> set (iframes s)" "fst p \<noteq> file" "snd p = old" by auto
    with inj mem have "p = (file, old)" using inj_onD [of snd "set (iframes s)" p "(file, old)"] by simp
    with p show False by simp
  qed
  with ne show "old \<notin> set (map snd (iframes (snd (createIframe env file s))))"
    by (simp add: createIframe_iframes delete_filter)
  from ne old show "old \<notin> set (children (snd (createIframe env file s)))"
    by (simp add: createIframe_simps)
qed

lemma new_handle_fresh:
  assumes "registry_ok s"
  shows "length (elements s) \<notin> set (map snd (iframes s))"
  using assms by (auto simp add: registry_ok_def list_all_iff)

text \<open>
  Claim C9. On a registry that is in order, \<open>createIframe\<close> for an identifier returns a new
  handle, which is afterwards the one handle registered under that identifier and a child
  of the container; a handle registered under the identifier before is no longer
  registered and no longer a child of the container; entries under other identifiers are
  as before. The registry is in order in the initial state, and \<open>createIframe\<close>, the
  listener on any message (as a whole, up to its first \<open>await\<close>, and resumed after an
  \<open>await\<close>) and every step of \<open>createTesters\<close> keep it in order; so it is in order at every
  point of a run started by the \<open>open\<close> handler, however the suspended runs of the listener
  are interleaved with it, and at most one handle is registered under any identifier.
\<close>

theorem registry_one_handle_per_identifier:
  assumes "registry_ok s"
  shows "map_of (iframes (snd (createIframe env file s))) file = Some (fst (createIframe env file s))
   \<and> handles_for file (snd (createIframe env file s)) = [fst (createIframe env file s)]
   \<and> fst (createIframe env file s) \<notin> set (map snd (iframes s))
   \<and> fst (createIframe env file s) \<in> set (children (snd (createIframe env file s)))
   \<and> (\<forall>old. map_of (iframes s) file = Some old \<longrightarrow>
         old \<notin> set (map snd (iframes (snd (createIframe env file s))))
       \<and> old \<notin> set (children (snd (createIframe env file s))))
   \<and> (\<forall>k. k \<noteq> file \<longrightarrow>
         map_of (iframes (snd (createIframe env file s))) k = map_of (iframes s) k)
   \<and> registry_ok (snd (createIframe env file s))
   \<and> registry_ok (state_after env e s)
   \<and> registry_ok (snd (listener_begin env e s))
   \<and> registry_ok (snd (listener_resume env ok c s))
   \<and> registry_ok (fst (system_step env i (s, t, cs)))
   \<and> registry_ok (fst (run env ins (open_system env testFiles init_orch)))
   \<and> length (handles_for ident s) \<le> 1"
proof -
  have a: "map_of (iframes (snd (createIframe env file s))) file = Some (fst (createIframe env file s))"
    by (simp add: createIframe_lookup createIframe_simps)
  have b: "handles_for file (snd (createIframe env file s)) = [fst (createIframe env file s)]"
    by (simp add: createIframe_handles_for createIframe_simps)
  have c: "fst (createIframe env file s) \<notin> set (map snd (iframes s))"
    using new_handle_fresh [OF assms] by (simp add: createIframe_simps)
  have d: "fst (createIframe env file s) \<in> set (children (snd (createIframe env file s)))"
    by (simp add: createIframe_simps)
  have e: "\<forall>old. map_of (iframes s) file = Some old \<longrightarrow>
         old \<notin> set (map snd (iframes (snd (createIframe env file s))))
       \<and> old \<notin> set (children (snd (createIframe env file s)))"
    using old_handle_gone [OF assms] by blast
  have f: "\<forall>k. k \<noteq> file \<longrightarrow>
         map_of (iframes (snd (createIframe env file s))) k = map_of (iframes s) k"
    by (simp add: createIframe_lookup)
  have g: "registry_ok (snd (createIframe env file s))"
    by (rule registry_ok_createIframe [OF assms])
  have h: "registry_ok (state_after env e s)"
    unfolding state_after_def by (rule registry_ok_listener [OF assms])
  have h1: "registry_ok (snd (listener_begin env e s))"
    by (rule registry_ok_listener_begin [OF assms])
  have h2: "registry_ok (snd (listener_resume env ok c s))"
    by (rule registry_ok_listener_resume [OF assms])
  have i: "registry_ok (fst (system_step env i (s, t, cs)))"
    by (rule registry_ok_system_step [OF assms])
  have o: "registry_ok (fst (open_system env testFiles init_orch))"
    using registry_ok_on_open [OF registry_ok_init] by (simp add: open_system_def)
  have j: "registry_ok (fst (run env ins (open_system env testFiles init_orch)))"
    by (rule registry_ok_run [OF o])
  have k: "length (handles_for ident s) \<le> 1"
    by (rule one_handle [OF assms])
  from a b c d e f g h h1 h2 i j k show ?thesis by blast
qed

theorem registry_one_handle_per_identifier_witness:
  "registry_ok registered_a
   \<and> map_of (iframes registered_a) ''a'' = Some 0
   \<and> map_of (iframes (snd (createIframe example_env ''a'' registered_a))) ''a'' = Some 1
   \<and> handles_for ''a'' (snd (createIframe example_env ''a'' registered_a)) = [1]
   \<and> 0 \<notin> set (map snd (iframes (snd (createIframe example_env ''a'' registered_a))))
   \<and> 0 \<notin> set (children (snd (createIframe example_env ''a'' registered_a)))
   \<and> registry_ok (snd (createIframe example_env ''a'' registered_a))
   \<and> length (handles_for ''a'' registered_a) \<le> 1"
proof -
  have ok: "registry_ok registered_a"
    by (simp add: registry_ok_def registered_a_simps)
  have old: "map_of (iframes registered_a) ''a'' = Some 0"
    by (simp add: registered_a_simps)
  have n: "fst (createIframe example_env ''a'' registered_a) = 1"
    by (simp add: createIframe_simps registered_a_simps)
  note t = registry_one_handle_per_identifier [OF ok, of example_env "''a''" _ _ _ _ _ _ _ _ "''a''"]
  from t old n ok show ?thesis by simp
qed

subsection \<open>The isolated mode: order of creation\<close>

lemma filter_append_viewport: "filter is_append (viewport_effects env) = []"
  by (simp add: viewport_effects_def)

lemma loop_Cons:
  "snd (loop env (file # rest) s) = AwaitViewport file rest"
  "effects (fst (loop env (file # rest) s)) =
     effects s @ [AppendIframe file (length (elements s))] @ viewport_effects env"
  "iframes (fst (loop env (file # rest) s)) =
     AList.delete file (iframes s) @ [(file, length (elements s))]"
  "runningFiles (fst (loop env (file # rest) s)) = runningFiles s"
  "length (elements (fst (loop env (file # rest) s))) = Suc (length (elements s))"
  "children (fst (loop env (file # rest) s)) =
     (case map_of (iframes s) file of None \<Rightarrow> children s | Some old \<Rightarrow> removeAll old (children s))
       @ [length (elements s)]"
  by (simp_all add: split_def Let_def viewport_call_simps createIframe_simps createIframe_iframes
      viewport_effects_def)

lemma step_shape_cases:
  assumes "step_shape env i (s, t, cs)" and "system_step env i (s, t, cs) = (s', t', cs')"
  obtains (quiet) xs where "effects s' = effects s @ xs" and "filter is_append xs = []"
      and "pending t' = pending t \<or> pending t' = []"
      and "may_create t' \<longrightarrow> may_create t \<or> releases (In i)"
    | (create) xs f n ys where "effects s' = effects s @ xs @ AppendIframe f n # ys"
      and "filter is_append xs = []" and "filter is_append ys = []"
      and "pending t = f # pending t'" and "\<not> may_create t'" and "may_create t"
  using assms unfolding step_shape_def by (simp del: releases.simps) blast

lemma shape_quiet:
  assumes "system_step env i (s, t, cs) = (s', t', cs')"
    and "effects s' = effects s @ xs" and "filter is_append xs = []"
    and "pending t' = pending t \<or> pending t' = []"
    and "may_create t' \<longrightarrow> may_create t \<or> releases (In i)"
  shows "step_shape env i (s, t, cs)"
  unfolding step_shape_def
  apply (rule disjI1, rule exI [of _ xs])
  using assms by (simp del: releases.simps)

lemma shape_loop:
  assumes st: "system_step env i (s, t, cs) = (fst (loop env (pending t) s1), snd (loop env (pending t) s1), cs')"
    and eff: "effects s1 = effects s @ xs" and na: "filter is_append xs = []"
    and may: "may_create t"
  shows "step_shape env i (s, t, cs)"
proof (cases "pending t")
  case Nil
  then have "system_step env i (s, t, cs) = (s1, Settled Resolved, cs')" using st by simp
  then show ?thesis
    by (rule shape_quiet [of _ _ _ _ _ _ _ _ xs]) (simp_all add: eff na)
next
  case (Cons f rest)
  show ?thesis unfolding step_shape_def
    apply (rule disjI2, rule exI [of _ xs], rule exI [of _ f],
        rule exI [of _ "length (elements s1)"], rule exI [of _ "viewport_effects env"])
    using eff na may Cons
    by (simp add: st loop_Cons filter_append_viewport del: loop.simps releases.simps)
qed

lemma after_container_isolated:
  assumes "\<not> isolate_false env"
  shows "\<exists>s2. effects s2 = effects s \<and> iframes s2 = [] \<and> runningFiles s2 = runningFiles s
            \<and> elements s2 = elements s
            \<and> children s2 = (if browser_ui env then []
                              else filter (\<lambda>el. el \<notin> snd ` set (iframes s)) (children s))
            \<and> after_container env testFiles s = loop env testFiles s2"
proof -
  let ?s1 = "if browser_ui env then s\<lparr> container_class := ''scrolls'', children := [] \<rparr> else s"
  have "effects (remove_all_iframes ?s1) = effects s"
    "iframes (remove_all_iframes ?s1) = []"
    "runningFiles (remove_all_iframes ?s1) = runningFiles s"
    "elements (remove_all_iframes ?s1) = elements s"
    "children (remove_all_iframes ?s1) = (if browser_ui env then []
                              else filter (\<lambda>el. el \<notin> snd ` set (iframes s)) (children s))"
    by (simp_all add: remove_all_iframes_simps remove_all_iframes_simps2)
  moreover have "after_container env testFiles s = loop env testFiles (remove_all_iframes ?s1)"
    using assms by (simp add: after_container_def Let_def)
  ultimately show ?thesis by blast
qed

lemma handler_pending: "pending (handler e t) = pending t"
  by (cases "(e, t)" rule: handler.cases) simp_all

lemma handler_may_create: "may_create (handler e t) \<Longrightarrow> may_create t \<or> done_or_error e"
  by (cases "(e, t)" rule: handler.cases) (simp_all split: if_splits)

lemma system_step_shape:
  assumes iso: "\<not> isolate_false env"
  shows "step_shape env i (s, t, cs)"
proof (cases i)
  case (Message e)
  obtain xs where xs: "effects (snd (listener_begin env e s)) = effects s @ xs" "filter is_append xs = []"
    using listener_begin_effects [of env e s] by blast
  show ?thesis unfolding Message
    by (rule shape_quiet [OF system_step_Message xs])
       (use handler_may_create [of e t] in \<open>auto simp add: handler_pending\<close>)
next
  case (Settles k ok)
  show ?thesis
  proof (cases "k < length cs")
    case True
    obtain xs where xs: "effects (snd (listener_resume env ok (cs ! k) s)) = effects s @ xs"
        "filter is_append xs = []"
      using listener_resume_effects [of env ok "cs ! k" s] by blast
    have "system_step env i (s, t, cs) = (snd (listener_resume env ok (cs ! k) s), t,
            replace_cont k (fst (listener_resume env ok (cs ! k) s)) cs)"
      using True Settles by (simp add: system_step_Settles del: system_step.simps)
    then show ?thesis by (rule shape_quiet [OF _ xs]) simp_all
  next
    case False
    then have "system_step env i (s, t, cs) = (s, t, cs)"
      using Settles by (simp add: system_step_Settles del: system_step.simps)
    then show ?thesis by (rule shape_quiet [of _ _ _ _ _ _ _ _ "[]"]) simp_all
  qed
next
  case (ContainerPoll found)
  show ?thesis
  proof (cases t)
    case (AwaitContainer fs)
    show ?thesis
    proof (cases "browser_ui env \<and> \<not> found")
      case True
      then have "system_step env i (s, t, cs) = (s, t, cs)" using ContainerPoll AwaitContainer by simp
      then show ?thesis by (rule shape_quiet [of _ _ _ _ _ _ _ _ "[]"]) simp_all
    next
      case False
      obtain s2 where s2: "effects s2 = effects s" "after_container env fs s = loop env fs s2"
        using after_container_isolated [OF iso, of s fs] by blast
      from False have "system_step env i (s, t, cs)
          = (fst (loop env (pending t) s2), snd (loop env (pending t) s2), cs)"
        using ContainerPoll AwaitContainer s2 by (auto simp add: split_def Let_def)
      then show ?thesis
        by (rule shape_loop [of _ _ _ _ _ _ _ "[]"]) (simp_all add: s2 AwaitContainer)
    qed
  qed (use ContainerPoll in \<open>auto intro!: shape_quiet [of _ _ s _ _ s _ _ "[]"]\<close>)
next
  case (ViewportSettled ok)
  show ?thesis
  proof (cases t)
    case (AwaitViewport f rest)
    show ?thesis
    proof (cases "viewport_outcome env ok")
      case Resolved
      then have "system_step env i (s, t, cs) = (s, AwaitMessage f rest, cs)"
        using ViewportSettled AwaitViewport by simp
      then show ?thesis by (rule shape_quiet [of _ _ _ _ _ _ _ _ "[]"]) (simp_all add: AwaitViewport)
    next
      case Rejected
      then have "system_step env i (s, t, cs) = (s, Settled Rejected, cs)"
        using ViewportSettled AwaitViewport by simp
      then show ?thesis by (rule shape_quiet [of _ _ _ _ _ _ _ _ "[]"]) (simp_all add: AwaitViewport)
    qed
  next
    case AwaitViewportAll
    then have "system_step env i (s, t, cs) = (s, Settled (viewport_outcome env ok), cs)"
      using ViewportSettled by simp
    then show ?thesis by (rule shape_quiet [of _ _ _ _ _ _ _ _ "[]"]) (simp_all add: AwaitViewportAll)
  qed (use ViewportSettled in \<open>auto intro!: shape_quiet [of _ _ s _ _ s _ _ "[]"]\<close>)
next
  case Continue
  show ?thesis
  proof (cases t)
    case (Released f rest)
    have "system_step env i (s, t, cs) = (fst (loop env (pending t) s), snd (loop env (pending t) s), cs)"
      using Continue Released by (simp add: split_def Let_def)
    then show ?thesis
      by (rule shape_loop [of _ _ _ _ _ _ _ "[]"]) (simp_all add: Released)
  qed (use Continue in \<open>auto intro!: shape_quiet [of _ _ s _ _ s _ _ "[]"]\<close>)
qed

lemma created_Nil: "created [] = []"
  by (simp add: created_def)

lemma created_In: "created (In i # tr) = created tr"
  by (simp add: created_def)

lemma created_Out:
  "created (Out x # tr) = (case x of AppendIframe f n \<Rightarrow> f # created tr | _ \<Rightarrow> created tr)"
  by (cases x) (simp_all add: created_def)

lemma created_quiet: "filter is_append xs = [] \<Longrightarrow> created (map Out xs @ tr) = created tr"
proof (induction xs)
  case Nil
  then show ?case by simp
next
  case (Cons x xs)
  then show ?case by (cases x) (simp_all add: created_Out)
qed

lemma gated_quiet: "filter is_append xs = [] \<Longrightarrow> gated b (map Out xs @ tr) = gated b tr"
proof (induction xs)
  case Nil
  then show ?case by simp
next
  case (Cons x xs)
  then show ?case by (cases x) simp_all
qed

lemma trace_Cons:
  assumes "system_step env i (s, t, cs) = (s', t', cs')" and "effects s' = effects s @ xs"
  shows "trace env (i # ins) (s, t, cs) = In i # map Out xs @ trace env ins (s', t', cs')"
  using assms by (simp add: new_effects_def)

lemma created_order:
  assumes iso: "\<not> isolate_false env"
  shows "\<exists>zs. pending t = created (trace env ins (s, t, cs)) @ zs"
proof (induction ins arbitrary: s t cs)
  case Nil
  then show ?case by (simp add: created_Nil)
next
  case (Cons i ins)
  obtain s' t' cs' where st': "system_step env i (s, t, cs) = (s', t', cs')"
    by (cases "system_step env i (s, t, cs)")
  from Cons.IH [of t' s' cs'] obtain zs where zs: "pending t' = created (trace env ins (s', t', cs')) @ zs"
    by blast
  from system_step_shape [OF iso, of i s t cs] st' show ?case
  proof (cases rule: step_shape_cases)
    case (quiet xs)
    have cr: "created (trace env (i # ins) (s, t, cs)) = created (trace env ins (s', t', cs'))"
      unfolding trace_Cons [OF st' quiet(1)] by (simp add: created_In created_quiet quiet(2))
    from quiet(3) show ?thesis
    proof
      assume "pending t' = pending t"
      with zs have "pending t = created (trace env (i # ins) (s, t, cs)) @ zs" unfolding cr by simp
      then show ?thesis ..
    next
      assume "pending t' = []"
      with zs have "created (trace env (i # ins) (s, t, cs)) = []" unfolding cr by simp
      then show ?thesis by (simp del: trace.simps)
    qed
  next
    case (create xs f n ys)
    have "trace env (i # ins) (s, t, cs)
        = In i # map Out xs @ Out (AppendIframe f n) # map Out ys @ trace env ins (s', t', cs')"
      unfolding trace_Cons [OF st' create(1)] by simp
    then have cr: "created (trace env (i # ins) (s, t, cs)) = f # created (trace env ins (s', t', cs'))"
      by (simp add: created_In created_quiet create(2,3) created_Out)
    from create(4) zs show ?thesis unfolding cr by simp
  qed
qed

lemma gated_trace:
  assumes iso: "\<not> isolate_false env"
  shows "may_create t \<longrightarrow> b \<Longrightarrow> gated b (trace env ins (s, t, cs))"
proof (induction ins arbitrary: s t cs b)
  case Nil
  then show ?case by simp
next
  case (Cons i ins)
  obtain s' t' cs' where st': "system_step env i (s, t, cs) = (s', t', cs')"
    by (cases "system_step env i (s, t, cs)")
  from system_step_shape [OF iso, of i s t cs] st' show ?case
  proof (cases rule: step_shape_cases)
    case (quiet xs)
    from quiet(4) Cons.prems have "may_create t' \<longrightarrow> (b \<or> releases (In i))"
      by blast
    from Cons.IH [OF this] show ?thesis
      unfolding trace_Cons [OF st' quiet(1)] by (simp add: gated_quiet quiet(2) del: releases.simps)
  next
    case (create xs f n ys)
    have tr: "trace env (i # ins) (s, t, cs)
        = In i # map Out xs @ Out (AppendIframe f n) # map Out ys @ trace env ins (s', t', cs')"
      unfolding trace_Cons [OF st' create(1)] by simp
    from create(6) Cons.prems have ok: "b" by blast
    have "gated False (trace env ins (s', t', cs'))" using Cons.IH [of t' False s' cs'] create(5) by simp
    with ok show ?thesis
      unfolding tr by (simp add: gated_quiet create(2,3) del: releases.simps)
  qed
qed

lemma gated_after_append:
  "gated b (pre @ Out (AppendIframe f n) # rest) \<Longrightarrow> gated False rest"
proof (induction pre arbitrary: b)
  case Nil
  then show ?case by simp
next
  case (Cons x pre)
  then show ?case by (cases x) (auto split: if_splits)
qed

lemma gated_needs_release:
  "gated False (mid @ Out (AppendIframe g m) # post) \<Longrightarrow> \<exists>x \<in> set mid. releases x"
proof (induction mid)
  case Nil
  then show ?case by simp
next
  case (Cons x mid)
  show ?case
  proof (cases "releases x")
    case True
    then show ?thesis by simp
  next
    case False
    with Cons.prems have "gated False (mid @ Out (AppendIframe g m) # post)"
      by (cases x) (auto split: if_splits)
    from Cons.IH [OF this] show ?thesis by simp
  qed
qed

lemma releases_Message: "releases x \<Longrightarrow> \<exists>e. x = In (Message e) \<and> done_or_error e"
  by (cases x rule: releases.cases) simp_all

subsection \<open>The isolated mode: one sandbox at a time\<close>

text \<open>
  The registry: a run whose messages are all tied, started with no suspended run of the
  listener that concerns its files, keeps \<open>sequential\<close>.
\<close>

lemma listener_begin_shrinks:
  "length (iframes (snd (listener_begin env e s))) \<le> length (iframes s)"
  "fst ` set (iframes (snd (listener_begin env e s))) \<subseteq> fst ` set (iframes s)"
  "iframes s = [] \<Longrightarrow> iframes (snd (listener_begin env e s)) = []"
  by (cases e; simp add: listener_begin_iframes length_delete_le dom_delete_subset)+

lemma harmless_mono: "harmless fs c \<Longrightarrow> set rest \<subseteq> set fs \<Longrightarrow> harmless rest c"
  by (cases c) auto

lemma harmless_all_mono:
  "list_all (harmless fs) cs \<Longrightarrow> set rest \<subseteq> set fs \<Longrightarrow> list_all (harmless rest) cs"
  by (auto simp add: list_all_iff intro: harmless_mono)

lemma begin_keeps_rest:
  assumes "tied file rest e" and "set rest \<subseteq> runningFiles s"
  shows "set rest \<subseteq> runningFiles (snd (listener_begin env e s))"
  using assms by (cases e) (auto simp add: listener_begin_running)

lemma begin_keeps_files:
  assumes "foreign testFiles e" and "set testFiles \<subseteq> runningFiles s"
  shows "set testFiles \<subseteq> runningFiles (snd (listener_begin env e s))"
  using assms by (cases e) (auto simp add: listener_begin_running)

lemma begin_harmless_tied:
  assumes "tied file rest e" and "file \<noteq> ID_ALL" and "file \<notin> set rest"
  shows "list_all (harmless rest) (suspended (fst (listener_begin env e s)))"
proof -
  {
    fix c assume c: "c \<in> set (suspended (fst (listener_begin env e s)))"
    have "harmless rest c"
    proof (cases c)
      case (ErrorReported i)
      with listener_begin_suspended [OF c] obtain err ty fs where "e = Error err ty fs i" by auto
      with assms show ?thesis by (simp add: ErrorReported)
    qed simp_all
  }
  then show ?thesis by (simp add: list_all_iff)
qed

lemma begin_harmless_foreign:
  assumes "foreign testFiles e"
  shows "list_all (harmless testFiles) (suspended (fst (listener_begin env e s)))"
proof -
  {
    fix c assume c: "c \<in> set (suspended (fst (listener_begin env e s)))"
    have "harmless testFiles c"
    proof (cases c)
      case (ErrorReported i)
      with listener_begin_suspended [OF c] obtain err ty fs where "e = Error err ty fs i" by auto
      with assms show ?thesis by (simp add: ErrorReported)
    qed simp_all
  }
  then show ?thesis by (simp add: list_all_iff)
qed

lemma begin_releases_registry:
  assumes "tied file (g # rest) e" and "done_or_error e" and "set (g # rest) \<subseteq> runningFiles s"
    and "fst ` set (iframes s) \<subseteq> {file}"
  shows "iframes (snd (listener_begin env e s)) = []"
proof (cases e)
  case (Done fns i)
  with assms(1) have i: "i = file" and d: "set fns \<inter> set (g # rest) = {}" by simp_all
  from d assms(3) have "g \<in> runningFiles s - set fns" by auto
  then have "runningFiles s - set fns \<noteq> {}" by blast
  then show ?thesis using assms(4) by (simp add: listener_begin_iframes Done i delete_only)
next
  case (Error err ty fs i)
  with assms(1) have i: "i = file" by simp
  show ?thesis using assms(4) by (simp add: listener_begin_iframes Error i delete_only)
qed (use assms(2) in simp_all)

lemma resume_keeps_rest:
  assumes "harmless rest c" and "set rest \<subseteq> runningFiles s"
  shows "set rest \<subseteq> runningFiles (snd (listener_resume env ok c s))"
  using assms by (cases c) (auto simp add: listener_resume_running)

lemma replace_cont_harmless:
  assumes "list_all (harmless rest) cs" and "list_all (harmless rest) (suspended p)" and "k < length cs"
  shows "list_all (harmless rest) (replace_cont k p cs)"
proof (cases p)
  case (Suspended c)
  with assms show ?thesis
    by (auto simp add: list_all_iff dest!: set_update_subset_insert [THEN subsetD])
next
  case (Finished out)
  with assms show ?thesis
    by (auto simp add: list_all_iff dest: in_set_takeD in_set_dropD)
qed

lemma resume_harmless:
  "list_all (harmless rest) (suspended (fst (listener_resume env ok c s)))"
  using listener_resume_suspended [of _ env ok c s rest] by (simp add: list_all_iff)

lemma sequential_loop:
  assumes "iframes s = []" and "set rest \<subseteq> runningFiles s" and "distinct rest"
    and "ID_ALL \<notin> set rest" and "list_all (harmless rest) cs"
  shows "sequential (fst (loop env rest s), snd (loop env rest s), cs)"
proof (cases rest)
  case Nil
  then show ?thesis using assms by simp
next
  case (Cons f r)
  have "list_all (harmless r) cs" using assms(5) unfolding Cons by (rule harmless_all_mono) auto
  then show ?thesis using assms unfolding Cons
    by (simp add: loop_Cons del: loop.simps)
qed

lemma sequential_bound:
  "sequential (s, t, cs) \<Longrightarrow> container_found t \<Longrightarrow> length (iframes s) \<le> 1"
  by (cases t) simp_all

lemma sequential_step:
  assumes iso: "\<not> isolate_false env" and tied: "tied_input t i" and inv: "sequential (s, t, cs)"
  shows "sequential (system_step env i (s, t, cs))"
proof (cases i)
  case (ContainerPoll found)
  show ?thesis
  proof (cases t)
    case (AwaitContainer fs)
    show ?thesis
    proof (cases "browser_ui env \<and> \<not> found")
      case True
      then show ?thesis using inv ContainerPoll AwaitContainer by simp
    next
      case False
      obtain s2 where s2: "iframes s2 = []" "runningFiles s2 = runningFiles s"
          "after_container env fs s = loop env fs s2"
        using after_container_isolated [OF iso, of s fs] by blast
      have "sequential (fst (loop env fs s2), snd (loop env fs s2), cs)"
        using inv AwaitContainer s2 by (intro sequential_loop) simp_all
      then show ?thesis using False ContainerPoll AwaitContainer s2 by (auto simp add: split_def Let_def)
    qed
  qed (use inv ContainerPoll in auto)
next
  case (ViewportSettled ok)
  show ?thesis
  proof (cases t)
    case (AwaitViewport f rest)
    then show ?thesis using inv ViewportSettled by (cases "viewport_outcome env ok") simp_all
  qed (use inv ViewportSettled in auto)
next
  case Continue
  show ?thesis
  proof (cases t)
    case (Released f rest)
    show ?thesis
    proof (cases rest)
      case Nil
      then show ?thesis using inv Continue Released by simp
    next
      case (Cons g r)
      have "sequential (fst (loop env rest s), snd (loop env rest s), cs)"
        using inv Released Cons by (intro sequential_loop) simp_all
      then show ?thesis using Continue Released by (simp add: split_def Let_def)
    qed
  qed (use inv Continue in auto)
next
  case (Settles k ok)
  show ?thesis
  proof (cases "k < length cs")
    case False
    then show ?thesis using inv Settles by (simp add: system_step_Settles del: system_step.simps)
  next
    case True
    let ?p = "fst (listener_resume env ok (cs ! k) s)"
    let ?s1 = "snd (listener_resume env ok (cs ! k) s)"
    have st: "system_step env i (s, t, cs) = (?s1, t, replace_cont k ?p cs)"
      using True Settles by (simp add: system_step_Settles del: system_step.simps)
    have fr: "iframes ?s1 = iframes s" by (simp add: listener_resume_frame)
    have h: "list_all (harmless (pending t)) cs \<Longrightarrow> list_all (harmless (pending t)) (replace_cont k ?p cs)"
      by (rule replace_cont_harmless [OF _ resume_harmless True])
    have r: "list_all (harmless (pending t)) cs \<Longrightarrow> set (pending t) \<subseteq> runningFiles s
        \<Longrightarrow> set (pending t) \<subseteq> runningFiles ?s1"
      using True by (intro resume_keeps_rest) (auto simp add: list_all_length)
    show ?thesis unfolding st
      using inv fr h r by (cases t) simp_all
  qed
next
  case (Message e)
  let ?p = "fst (listener_begin env e s)"
  let ?s1 = "snd (listener_begin env e s)"
  have st: "system_step env i (s, t, cs) = (?s1, handler e t, cs @ suspended ?p)"
    unfolding Message by (rule system_step_Message)
  show ?thesis
  proof (cases t)
    case (AwaitContainer fs)
    with tied Message have f: "foreign fs e" by simp
    from inv AwaitContainer have "set fs \<subseteq> runningFiles ?s1"
      by (intro begin_keeps_files [OF f]) simp
    then show ?thesis unfolding st
      using inv AwaitContainer begin_harmless_foreign [OF f] by simp
  next
    case AwaitViewportAll
    then show ?thesis unfolding st using inv listener_begin_shrinks(1) [of env e s] by simp
  next
    case (AwaitViewport f rest)
    with tied Message have ti: "tied f rest e" by simp
    from inv AwaitViewport have "set rest \<subseteq> runningFiles ?s1"
      by (intro begin_keeps_rest [OF ti]) auto
    moreover from inv AwaitViewport have "list_all (harmless rest) (suspended ?p)"
      by (intro begin_harmless_tied [OF ti]) auto
    ultimately show ?thesis unfolding st
      using inv AwaitViewport listener_begin_shrinks(1,2) [of env e s] by auto
  next
    case (Released f rest)
    with tied Message have ti: "tied f rest e" by simp
    from inv Released have "set rest \<subseteq> runningFiles ?s1"
      by (intro begin_keeps_rest [OF ti]) auto
    moreover from inv Released have "list_all (harmless rest) (suspended ?p)"
      by (intro begin_harmless_tied [OF ti]) auto
    ultimately show ?thesis unfolding st
      using inv Released listener_begin_shrinks(1,2) [of env e s] listener_begin_shrinks(3) [of s env e] by auto
  next
    case (AwaitMessage f rest)
    with tied Message have ti: "tied f rest e" by simp
    from inv AwaitMessage have keep: "set rest \<subseteq> runningFiles ?s1"
      by (intro begin_keeps_rest [OF ti]) auto
    from inv AwaitMessage have hl: "list_all (harmless rest) (suspended ?p)"
      by (intro begin_harmless_tied [OF ti]) auto
    show ?thesis
    proof (cases "done_or_error e")
      case False
      then show ?thesis unfolding st
        using inv AwaitMessage keep hl listener_begin_shrinks(1,2) [of env e s] by auto
    next
      case True
      have "rest \<noteq> [] \<longrightarrow> iframes ?s1 = []"
      proof
        assume "rest \<noteq> []"
        then obtain g r where gr: "rest = g # r" by (cases rest) auto
        show "iframes ?s1 = []"
          using inv AwaitMessage ti True unfolding gr
          by (intro begin_releases_registry [of f g r e]) simp_all
      qed
      then show ?thesis unfolding st
        using True inv AwaitMessage keep hl listener_begin_shrinks(1,2) [of env e s] by auto
    qed
  next
    case (Settled out)
    then show ?thesis unfolding st using inv listener_begin_shrinks(1) [of env e s] by simp
  qed
qed

lemma sequential_run:
  assumes iso: "\<not> isolate_false env"
  shows "conforming env ins st \<Longrightarrow> sequential st \<Longrightarrow> sequential (run env ins st)"
proof (induction ins arbitrary: st)
  case Nil
  then show ?case by simp
next
  case (Cons i ins)
  obtain s t cs where st: "st = (s, t, cs)" by (cases st)
  from Cons.prems have "sequential (system_step env i st)"
    unfolding st by (intro sequential_step [OF iso]) simp_all
  with Cons show ?case by simp
qed

lemma conforming_take: "conforming env ins st \<Longrightarrow> conforming env (take n ins) st"
proof (induction ins arbitrary: st n)
  case Nil
  then show ?case by simp
next
  case (Cons i ins)
  then show ?case by (cases n) simp_all
qed

lemma fold_insert_set: "fold (\<lambda>file r. insert file r) testFiles A = set testFiles \<union> A"
  by (induction testFiles arbitrary: A) auto

lemma sequential_start:
  "distinct testFiles \<Longrightarrow> ID_ALL \<notin> set testFiles \<Longrightarrow> list_all (harmless testFiles) cs \<Longrightarrow>
     sequential (begin_run env testFiles cs s)"
  by (simp add: begin_run_def createTesters_start_def fold_insert_set)

text \<open>
  The document: a run without \<open>error\<close> messages keeps \<open>in_step\<close>, so that the iframes of
  the run that are children of the container are the registered ones.
\<close>

lemma document_ok_subset:
  assumes "document_ok s" and "set (children s') \<subseteq> set (children s)"
    and "length (elements s) \<le> length (elements s')"
  shows "document_ok s'"
  using assms unfolding document_ok_def list_all_iff by (meson less_le_trans subsetD)

lemma begin_children_subset:
  "set (children (snd (listener_begin env e s))) \<subseteq> set (children s)"
  by (cases e) (auto simp add: listener_begin_children split: option.splits)

lemma document_ok_begin:
  assumes "document_ok s"
  shows "document_ok (snd (listener_begin env e s))"
  by (rule document_ok_subset [OF assms]) (simp_all add: begin_children_subset listener_begin_elements)

lemma document_ok_resume:
  assumes "document_ok s"
  shows "document_ok (snd (listener_resume env ok c s))"
  by (rule document_ok_subset [OF assms]) (simp_all add: listener_resume_frame)

lemma attached_drop:
  assumes "length al \<le> 1" and "filter P ch = map snd al"
  shows "filter P (case map_of al i of Some el \<Rightarrow> removeAll el ch | None \<Rightarrow> ch)
           = map snd (AList.delete i al)"
proof (cases al)
  case Nil
  with assms show ?thesis by simp
next
  case (Cons p rest)
  with assms(1) have rest: "rest = []" by simp
  obtain k el where p: "p = (k, el)" by (cases p)
  show ?thesis
  proof (cases "i = k")
    case True
    have "filter P (removeAll el ch) = removeAll el (filter P ch)"
      by (induction ch) auto
    then show ?thesis using assms(2) True by (simp add: Cons rest p)
  next
    case False
    then show ?thesis using assms(2) by (simp add: Cons rest p)
  qed
qed

lemma begin_attached:
  assumes "\<not> error_message (Message e)" and "length (iframes s) \<le> 1"
    and "attached n s = map snd (iframes s)"
  shows "attached n (snd (listener_begin env e s)) = map snd (iframes (snd (listener_begin env e s)))"
proof (cases e)
  case (Done fns i)
  show ?thesis
  proof (cases "runningFiles s - set fns = {}")
    case True
    then show ?thesis using assms(3)
      by (simp add: attached_def listener_begin_children listener_begin_iframes Done)
  next
    case False
    then show ?thesis
      using attached_drop [OF assms(2), of "\<lambda>el. n \<le> el" "children s" i] assms(3)
      by (simp add: attached_def listener_begin_children listener_begin_iframes Done)
  qed
next
  case (Error err ty fs i)
  with assms(1) show ?thesis by simp
qed (use assms(3) in \<open>simp_all add: attached_def listener_begin_children listener_begin_iframes\<close>)

lemma in_step_loop:
  assumes "document_ok s" and "n \<le> length (elements s)" and "iframes s = []"
    and "attached n s = []"
  shows "in_step n (fst (loop env rest s), snd (loop env rest s), cs)"
proof (cases rest)
  case Nil
  then show ?thesis using assms by simp
next
  case (Cons f r)
  have d: "document_ok (fst (loop env (f # r) s))"
    using assms(1,3) by (auto simp add: document_ok_def list_all_iff loop_Cons simp del: loop.simps)
  show ?thesis unfolding Cons
    using assms d by (simp add: loop_Cons attached_def del: loop.simps)
qed

lemma in_step_step:
  assumes iso: "\<not> isolate_false env" and ne: "\<not> error_message i"
    and seq: "sequential (s, t, cs)" and inv: "in_step n (s, t, cs)"
  shows "in_step n (system_step env i (s, t, cs))"
proof (cases i)
  case (ContainerPoll found)
  show ?thesis
  proof (cases t)
    case (AwaitContainer fs)
    show ?thesis
    proof (cases "browser_ui env \<and> \<not> found")
      case True
      then show ?thesis using inv ContainerPoll AwaitContainer by simp
    next
      case False
      obtain s2 where s2: "iframes s2 = []" "elements s2 = elements s"
          "children s2 = (if browser_ui env then []
                              else filter (\<lambda>el. el \<notin> snd ` set (iframes s)) (children s))"
          "after_container env fs s = loop env fs s2"
        using after_container_isolated [OF iso, of s fs] by blast
      from inv AwaitContainer have d: "document_ok s" and n: "length (elements s) = n" by simp_all
      have d2: "document_ok s2" using d s2 by (auto simp add: document_ok_def list_all_iff)
      have a2: "attached n s2 = []"
        using d n s2 by (auto simp add: attached_def document_ok_def list_all_iff filter_empty_conv)
      have "in_step n (fst (loop env fs s2), snd (loop env fs s2), cs)"
        using d2 a2 s2 n by (intro in_step_loop) simp_all
      then show ?thesis using False ContainerPoll AwaitContainer s2 by (auto simp add: split_def Let_def)
    qed
  qed (use inv ContainerPoll in auto)
next
  case (ViewportSettled ok)
  show ?thesis
  proof (cases t)
    case (AwaitViewport f rest)
    then show ?thesis using inv ViewportSettled by (cases "viewport_outcome env ok") simp_all
  qed (use inv ViewportSettled in auto)
next
  case Continue
  show ?thesis
  proof (cases t)
    case (Released f rest)
    show ?thesis
    proof (cases rest)
      case Nil
      then show ?thesis using inv Continue Released by simp
    next
      case (Cons g r)
      from seq Released Cons have e: "iframes s = []" by simp
      have "in_step n (fst (loop env rest s), snd (loop env rest s), cs)"
        using inv Released e by (intro in_step_loop) simp_all
      then show ?thesis using Continue Released by (simp add: split_def Let_def)
    qed
  qed (use inv Continue in auto)
next
  case (Settles k ok)
  show ?thesis
  proof (cases "k < length cs")
    case False
    then show ?thesis using inv Settles by (simp add: system_step_Settles del: system_step.simps)
  next
    case True
    have st: "system_step env i (s, t, cs) = (snd (listener_resume env ok (cs ! k) s), t,
        replace_cont k (fst (listener_resume env ok (cs ! k) s)) cs)"
      using True Settles by (simp add: system_step_Settles del: system_step.simps)
    show ?thesis unfolding st
      using inv document_ok_resume [of s env ok "cs ! k"]
      by (cases t) (simp_all add: listener_resume_frame attached_def)
  qed
next
  case (Message e)
  let ?s1 = "snd (listener_begin env e s)"
  have st: "system_step env i (s, t, cs) = (?s1, handler e t, cs @ suspended (fst (listener_begin env e s)))"
    unfolding Message by (rule system_step_Message)
  from ne Message have ne': "\<not> error_message (Message e)" by simp
  show ?thesis
  proof (cases t)
    case (AwaitContainer fs)
    then show ?thesis unfolding st
      using inv document_ok_begin [of s env e] by (simp add: listener_begin_elements)
  next
    case AwaitViewportAll
    with seq inv have "length (iframes s) \<le> 1" "attached n s = map snd (iframes s)" by simp_all
    from begin_attached [OF ne' this] show ?thesis unfolding st
      using inv AwaitViewportAll document_ok_begin [of s env e] by (simp add: listener_begin_elements)
  next
    case (AwaitViewport f rest)
    with seq inv have "length (iframes s) \<le> 1" "attached n s = map snd (iframes s)" by simp_all
    from begin_attached [OF ne' this] show ?thesis unfolding st
      using inv AwaitViewport document_ok_begin [of s env e] by (simp add: listener_begin_elements)
  next
    case (AwaitMessage f rest)
    with seq inv have "length (iframes s) \<le> 1" "attached n s = map snd (iframes s)" by simp_all
    from begin_attached [OF ne' this] show ?thesis unfolding st
      using inv AwaitMessage document_ok_begin [of s env e] by (simp add: listener_begin_elements)
  next
    case (Released f rest)
    with seq inv have "length (iframes s) \<le> 1" "attached n s = map snd (iframes s)" by simp_all
    from begin_attached [OF ne' this] show ?thesis unfolding st
      using inv Released document_ok_begin [of s env e] by (simp add: listener_begin_elements)
  next
    case (Settled out)
    with seq inv have "length (iframes s) \<le> 1" "attached n s = map snd (iframes s)" by simp_all
    from begin_attached [OF ne' this] show ?thesis unfolding st
      using inv Settled document_ok_begin [of s env e] by (simp add: listener_begin_elements)
  qed
qed

lemma in_step_run:
  assumes iso: "\<not> isolate_false env"
  shows "conforming env ins st \<Longrightarrow> \<not> list_ex error_message ins \<Longrightarrow> sequential st \<Longrightarrow>
     in_step n st \<Longrightarrow> in_step n (run env ins st)"
proof (induction ins arbitrary: st)
  case Nil
  then show ?case by simp
next
  case (Cons i ins)
  obtain s t cs where st: "st = (s, t, cs)" by (cases st)
  from Cons.prems have 1: "sequential (system_step env i st)"
    unfolding st by (intro sequential_step [OF iso]) simp_all
  from Cons.prems have 2: "in_step n (system_step env i st)"
    unfolding st by (intro in_step_step [OF iso]) simp_all
  from Cons.IH [OF _ _ 1 2] Cons.prems show ?case by simp
qed

lemma no_error_take: "\<not> list_ex error_message ins \<Longrightarrow> \<not> list_ex error_message (take k ins)"
  by (auto simp add: list_ex_iff dest: in_set_takeD)

lemma in_step_start:
  "document_ok s \<Longrightarrow> in_step (length (elements s)) (begin_run env testFiles cs s)"
  by (simp add: begin_run_def createTesters_start_def document_ok_def)

lemma in_step_bound:
  assumes "sequential (s, t, cs)" and "in_step n (s, t, cs)" and "container_found t"
  shows "length (attached n s) \<le> 1"
proof -
  from assms(1,3) have "length (iframes s) \<le> 1" by (rule sequential_bound)
  moreover from assms(2,3) have "attached n s = map snd (iframes s)" by (cases t) simp_all
  ultimately show ?thesis by simp
qed

text \<open>
  Claim C1 ends: no two sandbox lifetimes overlap. The loop goes on at the next \<open>done\<close> or
  \<open>error\<close> message, whichever iframe it comes from. In the isolated mode, with the files
  \<open>a\<close> and \<open>b\<close>: a \<open>done\<close> message of an iframe of an earlier run arrives while the sandbox of
  \<open>a\<close> runs; the listener finds nothing to remove, the loop goes on, and the sandboxes of
  \<open>a\<close> and \<open>b\<close> are registered, and children of the container, at the same time.
\<close>

theorem isolated_mode_two_sandboxes_at_once:
  "\<not> isolate_false example_env
   \<and> map fst (iframes (fst (run example_env stale_done
        (begin_run example_env [''a'', ''b''] [] init_orch)))) = [''a'', ''b'']
   \<and> children (fst (run example_env stale_done
        (begin_run example_env [''a'', ''b''] [] init_orch))) = [0, 1]"
  by code_simp

text \<open>
  The branch of the listener for \<open>done\<close> takes the iframe out of the document and then
  deletes its registry entry; the branch for \<open>error\<close> deletes the entry and leaves the
  iframe in the document. With the files \<open>a\<close> and \<open>b\<close>: the sandbox of \<open>a\<close> reports an error,
  the loop goes on, and the iframe of \<open>a\<close> is still a child of the container when the
  iframe of \<open>b\<close> is one, although the registry holds the sandbox of \<open>b\<close> alone.
\<close>

lemma error_leaves_iframe_attached:
  "conforming example_env error_in_a (begin_run example_env [''a'', ''b''] [] init_orch)
   \<and> iframes (fst (run example_env error_in_a
        (begin_run example_env [''a'', ''b''] [] init_orch))) = [(''b'', 1)]
   \<and> children (fst (run example_env error_in_a
        (begin_run example_env [''a'', ''b''] [] init_orch))) = [0, 1]"
  by code_simp

text \<open>
  Claim C1, amended. In the isolated mode, for every file list, every sequence of inputs
  and every list of runs of the listener that are suspended when \<open>createTesters\<close> is
  called: the sandboxes created are, in order, an initial part of the file list; and
  between the creation of one sandbox and the creation of the next, a message of type
  \<open>done\<close> or \<open>error\<close> has arrived. If moreover the files are pairwise distinct, none of them
  is the identifier \<open>ID_ALL\<close>, every message is tied to the sandbox the loop is at, and no
  suspended run of the listener is the report of an error of one of the files or of
  \<open>ID_ALL\<close>, then from the moment the container is found the registry never holds more
  than one sandbox; and if the document is in order at the start and no \<open>error\<close> message
  arrives, then also, from that moment, at most one iframe made by the run is a child of
  the container: the iframe of a sandbox is out of the document before the iframe of the
  next is in it. What is a child of the container after an \<open>error\<close> message is not part of
  the statement.
\<close>

theorem isolated_mode_order_and_lifetimes:
  assumes "\<not> isolate_false env"
  shows "(\<exists>zs. testFiles = created (trace env ins (begin_run env testFiles cs s)) @ zs)
   \<and> (\<forall>pre f n mid g m post.
         trace env ins (begin_run env testFiles cs s)
           = pre @ Out (AppendIframe f n) # mid @ Out (AppendIframe g m) # post
         \<longrightarrow> (\<exists>e. In (Message e) \<in> set mid \<and> done_or_error e))
   \<and> (distinct testFiles \<and> ID_ALL \<notin> set testFiles \<and> list_all (harmless testFiles) cs
        \<and> conforming env ins (begin_run env testFiles cs s)
      \<longrightarrow> (\<forall>k. container_found (fst (snd (run env (take k ins) (begin_run env testFiles cs s))))
             \<longrightarrow> length (iframes (fst (run env (take k ins) (begin_run env testFiles cs s)))) \<le> 1)
        \<and> (document_ok s \<and> \<not> list_ex error_message ins
           \<longrightarrow> (\<forall>k. container_found (fst (snd (run env (take k ins) (begin_run env testFiles cs s))))
                  \<longrightarrow> length (attached (length (elements s))
                               (fst (run env (take k ins) (begin_run env testFiles cs s)))) \<le> 1)))"
proof -
  let ?start = "begin_run env testFiles cs s"
  have st: "?start = (fst ?start, AwaitContainer testFiles, cs)"
    by (simp add: begin_run_def createTesters_start_def)
  have a: "\<exists>zs. testFiles = created (trace env ins ?start) @ zs"
    using created_order [OF assms, of "AwaitContainer testFiles" ins "fst ?start" cs] st by simp
  have g: "gated True (trace env ins ?start)"
    using gated_trace [OF assms, of "AwaitContainer testFiles" True ins "fst ?start" cs] st by simp
  have b: "\<forall>pre f n mid g m post.
         trace env ins ?start = pre @ Out (AppendIframe f n) # mid @ Out (AppendIframe g m) # post
         \<longrightarrow> (\<exists>e. In (Message e) \<in> set mid \<and> done_or_error e)"
  proof (intro allI impI)
    fix pre f n mid g m post
    assume "trace env ins ?start = pre @ Out (AppendIframe f n) # mid @ Out (AppendIframe g m) # post"
    with g have "gated True (pre @ Out (AppendIframe f n) # mid @ Out (AppendIframe g m) # post)"
      by simp
    then have "gated False (mid @ Out (AppendIframe g m) # post)" by (rule gated_after_append)
    then obtain x where "x \<in> set mid" "releases x" using gated_needs_release by blast
    then show "\<exists>e. In (Message e) \<in> set mid \<and> done_or_error e"
      using releases_Message by blast
  qed
  have c: "distinct testFiles \<and> ID_ALL \<notin> set testFiles \<and> list_all (harmless testFiles) cs
        \<and> conforming env ins ?start
      \<longrightarrow> (\<forall>k. container_found (fst (snd (run env (take k ins) ?start)))
             \<longrightarrow> length (iframes (fst (run env (take k ins) ?start))) \<le> 1)
        \<and> (document_ok s \<and> \<not> list_ex error_message ins
           \<longrightarrow> (\<forall>k. container_found (fst (snd (run env (take k ins) ?start)))
                  \<longrightarrow> length (attached (length (elements s)) (fst (run env (take k ins) ?start))) \<le> 1))"
  proof (intro impI conjI allI)
    fix k
    assume h: "distinct testFiles \<and> ID_ALL \<notin> set testFiles \<and> list_all (harmless testFiles) cs
        \<and> conforming env ins ?start"
      and f: "container_found (fst (snd (run env (take k ins) ?start)))"
    from h have "conforming env (take k ins) ?start" by (simp add: conforming_take)
    moreover from h have "sequential ?start" by (simp add: sequential_start)
    ultimately have "sequential (run env (take k ins) ?start)"
      by (rule sequential_run [OF assms])
    then have "sequential (fst (run env (take k ins) ?start),
        fst (snd (run env (take k ins) ?start)), snd (snd (run env (take k ins) ?start)))"
      by simp
    from sequential_bound [OF this f]
    show "length (iframes (fst (run env (take k ins) ?start))) \<le> 1" .
  next
    fix k
    assume h: "distinct testFiles \<and> ID_ALL \<notin> set testFiles \<and> list_all (harmless testFiles) cs
        \<and> conforming env ins ?start"
      and d: "document_ok s \<and> \<not> list_ex error_message ins"
      and f: "container_found (fst (snd (run env (take k ins) ?start)))"
    from h have co: "conforming env (take k ins) ?start" by (simp add: conforming_take)
    from h have sq: "sequential ?start" by (simp add: sequential_start)
    from d have ne: "\<not> list_ex error_message (take k ins)" by (simp add: no_error_take)
    from d have ins0: "in_step (length (elements s)) ?start" by (simp add: in_step_start)
    have sq1: "sequential (run env (take k ins) ?start)"
      using co sq by (rule sequential_run [OF assms])
    have st1: "in_step (length (elements s)) (run env (take k ins) ?start)"
      using co ne sq ins0 by (rule in_step_run [OF assms])
    from sq1 have sq2: "sequential (fst (run env (take k ins) ?start),
        fst (snd (run env (take k ins) ?start)), snd (snd (run env (take k ins) ?start)))"
      by simp
    from st1 have st2: "in_step (length (elements s)) (fst (run env (take k ins) ?start),
        fst (snd (run env (take k ins) ?start)), snd (snd (run env (take k ins) ?start)))"
      by simp
    from in_step_bound [OF sq2 st2 f]
    show "length (attached (length (elements s)) (fst (run env (take k ins) ?start))) \<le> 1" .
  qed
  from a b c show ?thesis by blast
qed

theorem isolated_mode_order_and_lifetimes_witness:
  "\<not> isolate_false example_env
   \<and> (\<exists>zs. [''a'', ''b''] = created (trace example_env run_ab
              (begin_run example_env [''a'', ''b''] [] init_orch)) @ zs)
   \<and> (\<exists>e. In (Message e) \<in> set [In (ViewportSettled True), In (Message (Done [''a''] ''a'')),
                                  In Continue]
          \<and> done_or_error e)
   \<and> distinct [''a'', ''b''] \<and> ID_ALL \<notin> set [''a'', ''b''] \<and> list_all (harmless [''a'', ''b'']) []
   \<and> conforming example_env run_ab (begin_run example_env [''a'', ''b''] [] init_orch)
   \<and> document_ok init_orch \<and> \<not> list_ex error_message run_ab
   \<and> container_found (fst (snd (run example_env (take 4 run_ab)
        (begin_run example_env [''a'', ''b''] [] init_orch))))
   \<and> length (iframes (fst (run example_env (take 4 run_ab)
        (begin_run example_env [''a'', ''b''] [] init_orch)))) \<le> 1
   \<and> length (attached (length (elements init_orch)) (fst (run example_env (take 4 run_ab)
        (begin_run example_env [''a'', ''b''] [] init_orch)))) \<le> 1"
proof -
  have iso: "\<not> isolate_false example_env" by (simp add: example_env_def)
  note t = isolated_mode_order_and_lifetimes [OF iso, of "[''a'', ''b'']" run_ab "[]" init_orch]
  have tr: "trace example_env run_ab (begin_run example_env [''a'', ''b''] [] init_orch)
      = [In (ContainerPoll True)] @ Out (AppendIframe ''a'' 0)
          # [In (ViewportSettled True), In (Message (Done [''a''] ''a'')), In Continue]
          @ Out (AppendIframe ''b'' 1)
          # [In (ViewportSettled True), In (Message (Done [''b''] ''b'')), Out RpcDone,
             In Continue, In (Settles 0 True), Out RpcFinishBrowserTests, In (Settles 0 True)]"
    by code_simp
  have d: "distinct [''a'', ''b'']" "ID_ALL \<notin> set [''a'', ''b'']" "list_all (harmless [''a'', ''b'']) []"
    by (simp_all add: ID_ALL_def)
  have c: "conforming example_env run_ab (begin_run example_env [''a'', ''b''] [] init_orch)"
    by code_simp
  have o: "document_ok init_orch" "\<not> list_ex error_message run_ab"
    by (simp_all add: document_ok_def init_orch_def run_ab_def)
  have f: "container_found (fst (snd (run example_env (take 4 run_ab)
        (begin_run example_env [''a'', ''b''] [] init_orch))))"
    by code_simp
  from t have 1: "\<exists>zs. [''a'', ''b''] = created (trace example_env run_ab
              (begin_run example_env [''a'', ''b''] [] init_orch)) @ zs"
    by blast
  from t tr have 2: "\<exists>e. In (Message e) \<in> set [In (ViewportSettled True), In (Message (Done [''a''] ''a'')),
                                  In Continue]
          \<and> done_or_error e"
    by blast
  from t d c f have 3: "length (iframes (fst (run example_env (take 4 run_ab)
        (begin_run example_env [''a'', ''b''] [] init_orch)))) \<le> 1"
    by blast
  from t d c o f have 4: "length (attached (length (elements init_orch)) (fst (run example_env (take 4 run_ab)
        (begin_run example_env [''a'', ''b''] [] init_orch)))) \<le> 1"
    by blast
  from iso 1 2 3 4 d c o f show ?thesis by blast
qed

subsection \<open>The wrapper: requests that wait for the same pass\<close>

text \<open>
  A request made while promise \<open>p\<close> is stored in \<open>promiseTesters\<close> starts no pass as long as
  \<open>p\<close> is pending.
\<close>

lemma request_waits_for_stored_promise:
  "r < length (requests l) \<Longrightarrow> requests l ! r = AwaitPrevious (Some p) \<Longrightarrow>
     map_of (settled l) p = None \<Longrightarrow> resume r l = l"
  by (simp add: resume_def)

text \<open>
  Claim C2 says that at most one pass of \<open>createTesters\<close> is active at any instant. The
  wrapper awaits the promise it finds and then starts its pass without looking at
  \<open>promiseTesters\<close> again. Three requests: the second and the third are made while the
  pass of the first is in flight, and both await its promise; when it settles, the second
  starts its pass, and the third starts its pass while that of the second is active.
\<close>

theorem three_requests_two_passes_active:
  "active (schedule (take 4 three_requests) init_lifecycle) = [0]
   \<and> requests (schedule (take 4 three_requests) init_lifecycle)
        = [AwaitOwn 0, AwaitPrevious (Some 0), AwaitPrevious (Some 0)]
   \<and> active (schedule three_requests init_lifecycle) = [1, 2]"
  by code_simp

text \<open>
  Two requests are enough when the second is made before the first is resumed: both find
  \<open>promiseTesters\<close> undefined, and each starts its pass.
\<close>

lemma two_requests_two_passes_active:
  "requests (schedule (take 2 two_requests) init_lifecycle)
        = [AwaitPrevious None, AwaitPrevious None]
   \<and> active (schedule two_requests init_lifecycle) = [0, 1]"
  by code_simp

end
